theory Spec2Isabelle
  imports Complex_Main "HOL-Library.Word" "HOL-Library.Log_Nat"
begin

unbundle bit_operations_syntax

section \<open>The noise filter interceptor of pkg/sfu/interceptor/noise_filter.go\<close>

text \<open>
  The development embeds \<^verbatim>\<open>noise_filter.go\<close>: the constants, the per-stream reader
  \<^verbatim>\<open>noiseFilterReader\<close> with its byte accumulator and lazily created denoiser, the
  frame loop of \<^verbatim>\<open>processAudioPayload\<close>, \<^verbatim>\<open>Read\<close> and \<^verbatim>\<open>BindRemoteStream\<close>.

  Conventions.
  \<^item> A Go panic (an index or slice bound out of range) is the value \<open>None\<close>; a
    returned \<^verbatim>\<open>error\<close> is a value \<open>go_error option\<close>, \<open>None\<close> being \<^verbatim>\<open>nil\<close>.
  \<^item> Slices are lists with value semantics. The only aliasing in the source, the
    parsed payload pointing into the caller's buffer, is harmless: the bytes written
    back to the buffer come from a freshly allocated slice.
  \<^item> The packages the file imports and this repository does not contain (pion/rtp,
    go-rnnoise, the underlying reader) are parameters: the record \<open>env\<close> and the
    \<open>reader\<close> field. Their mutable state is threaded explicitly: \<open>'e\<close> is the state
    of one denoiser, \<open>'w\<close> everything else outside the filter (the transport, the
    allocator of denoisers).
  \<^item> The mutex and the logger have no effect on the values computed; they are left out.
\<close>

subsection \<open>float32\<close>

text \<open>
  A finite \<^verbatim>\<open>float32\<close> is the rational it denotes. An arithmetic operation is the
  exact operation followed by rounding to the nearest value with a 24-bit significand,
  ties to even, with the exponent of the least significant bit not below \<open>-149\<close>
  (gradual underflow). NaN is not modelled, and a result too large for \<^verbatim>\<open>float32\<close>
  stays a large rational where IEEE 754 gives an infinity: the only values that can be
  that large are compared with \<open>32767\<close> and \<open>-32768\<close> and replaced, which treats
  both alike.
\<close>

type_synonym byte = "8 word"
type_synonym float32 = rat

definition round_half_even :: "rat \<Rightarrow> int" where
  "round_half_even x =
     (let f = \<lfloor>x\<rfloor>; d = x - of_int f
      in if d < 1 / 2 then f else if 1 / 2 < d then f + 1
         else if even f then f else f + 1)"

text \<open>\<open>f32_exponent x\<close> is the integer \<open>e\<close> with \<open>2\<^sup>e \<le> \<bar>x\<bar> < 2\<^sup>e\<^sup>+\<^sup>1\<close>, for \<open>x \<noteq> 0\<close>.\<close>

definition f32_exponent :: "rat \<Rightarrow> int" where
  "f32_exponent x =
     (let (p, q) = quotient_of \<bar>x\<bar>; e0 = bitlen p - bitlen q
      in if 2 powi e0 \<le> \<bar>x\<bar> then e0 else e0 - 1)"

definition f32_round :: "rat \<Rightarrow> float32" where
  "f32_round x =
     (if x = 0 then 0
      else let u = 2 powi (max (f32_exponent x - 23) (- 149))
           in of_int (round_half_even (x / u)) * u)"

definition f32_mul :: "float32 \<Rightarrow> float32 \<Rightarrow> float32" where
  "f32_mul x y = f32_round (x * y)"

definition f32_div :: "float32 \<Rightarrow> float32 \<Rightarrow> float32" where
  "f32_div x y = f32_round (x / y)"

text \<open>The untyped constant \<^verbatim>\<open>0.1\<close> becomes the nearest \<^verbatim>\<open>float32\<close>.\<close>

definition f32_const_tenth :: float32 where
  "f32_const_tenth = f32_round (1 / 10)"

text \<open>\<^verbatim>\<open>float32(int16Val)\<close>: every 16-bit integer is a \<^verbatim>\<open>float32\<close>.\<close>

definition float32_of_int16 :: "16 word \<Rightarrow> float32" where
  "float32_of_int16 v = of_int (sint v)"

text \<open>
  \<^verbatim>\<open>int16(sample)\<close>: the fraction is discarded (truncation towards zero). Go leaves the
  result implementation-dependent when the truncated value is not an \<^verbatim>\<open>int16\<close>; the
  model wraps there; \<open>int16_of_float32_sint\<close> below gives the range on which it is
  the language's conversion, and \<open>suppress_in_range\<close> shows that every sample the
  source converts lies in it.
\<close>

definition f32_trunc :: "float32 \<Rightarrow> int" where
  "f32_trunc x = (if 0 \<le> x then \<lfloor>x\<rfloor> else \<lceil>x\<rceil>)"

definition int16_of_float32 :: "float32 \<Rightarrow> 16 word" where
  "int16_of_float32 x = word_of_int (f32_trunc x)"

subsection \<open>encoding/binary, little endian\<close>

text \<open>
  \<^verbatim>\<open>binary.LittleEndian.Uint16(b)\<close> reads \<^verbatim>\<open>b[0] | b[1]<<8\<close> and panics on a slice
  shorter than two bytes.
\<close>

fun LittleEndian_Uint16 :: "byte list \<Rightarrow> 16 word option" where
  "LittleEndian_Uint16 (b0 # b1 # _) = Some (ucast b0 OR push_bit 8 (ucast b1))"
| "LittleEndian_Uint16 _ = None"

text \<open>\<^verbatim>\<open>binary.LittleEndian.PutUint16(b, v)\<close> writes \<^verbatim>\<open>byte(v)\<close>, \<^verbatim>\<open>byte(v >> 8)\<close>.\<close>

definition LittleEndian_PutUint16 :: "16 word \<Rightarrow> byte list" where
  "LittleEndian_PutUint16 v = [ucast v, ucast (drop_bit 8 v)]"

subsection \<open>Constants, configuration, the reader\<close>

definition rnnoiseSampleRate :: nat where
  "rnnoiseSampleRate = 48000"

definition rnnoiseFrameSize :: nat where
  "rnnoiseFrameSize = 480"

definition rnnoiseBytesPerSample :: nat where
  "rnnoiseBytesPerSample = 2"

definition rnnoiseFrameBytes :: nat where
  "rnnoiseFrameBytes = rnnoiseFrameSize * rnnoiseBytesPerSample"

record NoiseFilterConfig =
  Enabled :: bool
  Threshold :: float32
  Aggressive :: bool

type_synonym go_error = string

text \<open>\<^verbatim>\<open>interceptor.Attributes\<close> is a map; \<open>None\<close> is the \<^verbatim>\<open>nil\<close> map.\<close>

type_synonym attributes = "(string \<rightharpoonup> string) option"

text \<open>
  \<^verbatim>\<open>interceptor.RTPReader\<close>: \<^verbatim>\<open>Read(b, a)\<close> returns \<^verbatim>\<open>(n, a, err)\<close>, and leaves the
  packet in \<^verbatim>\<open>b\<close>. The model returns the contents of \<^verbatim>\<open>b\<close> after the call as well,
  and the state of the world.
\<close>

type_synonym 'w RTPReader =
  "'w \<Rightarrow> byte list \<Rightarrow> attributes \<Rightarrow> (nat \<times> attributes \<times> go_error option) \<times> byte list \<times> 'w"

record ('w, 'e) noiseFilterReader =
  reader :: "'w RTPReader"
  config :: NoiseFilterConfig
  denoiser :: "'e option"
  buffer :: "byte list"

text \<open>
  The imported functions.
  \<^item> \<open>NewNoiseFilter\<close>: \<^verbatim>\<open>rnnoise.NewNoiseFilter("")\<close>, returning the pointer (\<open>None\<close>
    is \<^verbatim>\<open>nil\<close>) and the error.
  \<^item> \<open>FilterStream\<close>: \<^verbatim>\<open>(*rnnoise.NoiseFilter).FilterStream(samples, threshold)\<close>,
    returning \<^verbatim>\<open>denoisedFrame\<close>, \<^verbatim>\<open>keepFrame\<close> and \<^verbatim>\<open>err\<close> (the second result, which
    the source discards, is left out) and the denoiser's new state. It is taken not
    to write to \<^verbatim>\<open>samples\<close>.
  \<^item> \<open>Unmarshal\<close>: \<^verbatim>\<open>(*rtp.Packet).Unmarshal\<close>, \<open>None\<close> on an error, else the header
    and the payload.
  \<^item> \<open>Marshal\<close>: \<^verbatim>\<open>(*rtp.Packet).Marshal\<close> of a packet made of a header and a payload,
    \<open>None\<close> on an error.
\<close>

record ('w, 'e, 'h) env =
  NewNoiseFilter :: "'w \<Rightarrow> ('e option \<times> go_error option) \<times> 'w"
  FilterStream :: "'e \<Rightarrow> float32 list \<Rightarrow> float32 \<Rightarrow> (float32 list \<times> bool \<times> go_error option) \<times> 'e"
  Unmarshal :: "byte list \<Rightarrow> ('h \<times> byte list) option"
  Marshal :: "'h \<Rightarrow> byte list \<Rightarrow> byte list option"

subsection \<open>One frame (the body of the loop of processAudioPayload)\<close>

text \<open>
  Lines 209-214: \<^verbatim>\<open>samples[i] = float32(int16(Uint16(frame[i*2:]))) / 32768.0\<close> for
  \<open>i\<close> from 0 to 479. \<^verbatim>\<open>frame[i*2:]\<close> panics when \<open>i * 2\<close> is beyond the frame.
\<close>

definition sampleAt :: "byte list \<Rightarrow> nat \<Rightarrow> float32 option" where
  "sampleAt frame i =
     (if length frame < i * 2 then None
      else case LittleEndian_Uint16 (drop (i * 2) frame) of
             None \<Rightarrow> None
           | Some int16Val \<Rightarrow> Some (f32_div (float32_of_int16 int16Val) 32768))"

fun collect :: "'a option list \<Rightarrow> 'a list option" where
  "collect [] = Some []"
| "collect (None # _) = None"
| "collect (Some x # xs) = (case collect xs of None \<Rightarrow> None | Some ys \<Rightarrow> Some (x # ys))"

definition frameSamples :: "byte list \<Rightarrow> float32 list option" where
  "frameSamples frame = collect (map (sampleAt frame) [0..<rnnoiseFrameSize])"

text \<open>Lines 224-229.\<close>

definition clampSample :: "float32 \<Rightarrow> float32" where
  "clampSample sample =
     (let clampedSample = f32_mul sample 32768
      in if 32767 < clampedSample then 32767
         else if clampedSample < - 32768 then - 32768
         else clampedSample)"

text \<open>
  Lines 222-231: \<^verbatim>\<open>samples[i] = clampedSample\<close> for every index of \<^verbatim>\<open>denoisedFrame\<close>;
  the assignment panics at the first index beyond \<^verbatim>\<open>samples\<close>.
\<close>

definition storeDenoised :: "float32 list \<Rightarrow> float32 list \<Rightarrow> float32 list option" where
  "storeDenoised denoisedFrame samples =
     (if length samples < length denoisedFrame then None
      else Some (fold (\<lambda>(i, sample) smp. smp[i := clampSample sample])
                   (enumerate 0 denoisedFrame) samples))"

text \<open>Lines 234-236: \<^verbatim>\<open>samples[i] *= 0.1\<close>.\<close>

definition attenuate :: "float32 list \<Rightarrow> float32 list" where
  "attenuate samples = map (\<lambda>sample. f32_mul sample f32_const_tenth) samples"

text \<open>
  Lines 242-246: two bytes per sample, \<^verbatim>\<open>PutUint16(processedFrame[i*2:], uint16(int16(sample)))\<close>.
  \<^verbatim>\<open>samples\<close> has \<open>rnnoiseFrameSize\<close> entries, so the \<open>rnnoiseFrameBytes\<close> bytes of
  \<^verbatim>\<open>processedFrame\<close> are written one pair after the other.
\<close>

definition samplesBytes :: "float32 list \<Rightarrow> byte list" where
  "samplesBytes samples =
     concat (map (\<lambda>sample. LittleEndian_PutUint16 (int16_of_float32 sample)) samples)"

text \<open>
  Lines 217-239: with a denoiser, \<^verbatim>\<open>FilterStream\<close> is called; its frame is stored when
  \<^verbatim>\<open>err == nil && keepFrame\<close>, the samples are attenuated when \<^verbatim>\<open>!keepFrame\<close>, and they
  are left as they are otherwise. Without a denoiser they are left as they are.
\<close>

definition suppress ::
  "('w, 'e, 'h) env \<Rightarrow> float32 \<Rightarrow> 'e option \<Rightarrow> float32 list \<Rightarrow> (float32 list \<times> 'e option) option" where
  "suppress env threshold dn samples =
     (case dn of
        None \<Rightarrow> Some (samples, None)
      | Some e \<Rightarrow>
          (case FilterStream env e samples threshold of
             ((denoisedFrame, keepFrame, err), e') \<Rightarrow>
               if err = None \<and> keepFrame then
                 (case storeDenoised denoisedFrame samples of
                    None \<Rightarrow> None
                  | Some samples' \<Rightarrow> Some (samples', Some e'))
               else if \<not> keepFrame then Some (attenuate samples, Some e')
               else Some (samples, Some e')))"

definition processFrame ::
  "('w, 'e, 'h) env \<Rightarrow> float32 \<Rightarrow> 'e option \<Rightarrow> byte list \<Rightarrow> (byte list \<times> 'e option) option" where
  "processFrame env threshold dn frame =
     (case frameSamples frame of
        None \<Rightarrow> None
      | Some samples \<Rightarrow>
          (case suppress env threshold dn samples of
             None \<Rightarrow> None
           | Some (samples', dn') \<Rightarrow> Some (samplesBytes samples', dn')))"

subsection \<open>processAudioPayload\<close>

text \<open>
  Lines 205-252: while the accumulator holds a frame, its first \<open>rnnoiseFrameBytes\<close>
  bytes are processed, appended to \<^verbatim>\<open>processedData\<close> and removed.
\<close>

function frameLoop ::
  "('w, 'e, 'h) env \<Rightarrow> ('w, 'e) noiseFilterReader \<Rightarrow> byte list \<Rightarrow>
     (byte list \<times> ('w, 'e) noiseFilterReader) option" where
  "frameLoop env r processedData =
     (if rnnoiseFrameBytes \<le> length (buffer r) then
        (case processFrame env (Threshold (config r)) (denoiser r)
                (take rnnoiseFrameBytes (buffer r)) of
           None \<Rightarrow> None
         | Some (processedFrame, dn') \<Rightarrow>
             frameLoop env
               (r\<lparr>denoiser := dn', buffer := drop rnnoiseFrameBytes (buffer r)\<rparr>)
               (processedData @ processedFrame))
      else Some (processedData, r))"
  by pat_completeness auto
termination
  by (relation "measure (\<lambda>(env, r, processedData). length (buffer r))")
     (auto simp: rnnoiseFrameBytes_def rnnoiseFrameSize_def rnnoiseBytesPerSample_def)

definition processAudioPayload ::
  "('w, 'e, 'h) env \<Rightarrow> ('w, 'e) noiseFilterReader \<Rightarrow> byte list \<Rightarrow>
     (byte list \<times> ('w, 'e) noiseFilterReader) option" where
  "processAudioPayload env r payload =
     (if length payload < rnnoiseFrameBytes then Some (payload, r)
      else case frameLoop env (r\<lparr>buffer := buffer r @ payload\<rparr>) [] of
             None \<Rightarrow> None
           | Some (processedData, r') \<Rightarrow>
               if 0 < length (buffer r')
               then Some (processedData @ buffer r', r'\<lparr>buffer := []\<rparr>)
               else Some (processedData, r'))"

subsection \<open>Read\<close>

text \<open>
  What a call of \<^verbatim>\<open>Read\<close> that returns leaves behind: the three results, the contents
  of the caller's buffer \<^verbatim>\<open>b\<close>, the reader and the world.
\<close>

record ('w, 'e) outcome =
  ret_n :: nat
  ret_a :: attributes
  ret_err :: "go_error option"
  out_b :: "byte list"
  out_r :: "('w, 'e) noiseFilterReader"
  out_w :: 'w

text \<open>
  Lines 135-146: without a denoiser, \<^verbatim>\<open>r.denoiser, err = rnnoise.NewNoiseFilter("")\<close>.
  The first component tells whether \<^verbatim>\<open>err != nil\<close>.
\<close>

definition initDenoiser ::
  "('w, 'e, 'h) env \<Rightarrow> ('w, 'e) noiseFilterReader \<Rightarrow> 'w \<Rightarrow> bool \<times> ('w, 'e) noiseFilterReader \<times> 'w" where
  "initDenoiser env r w =
     (if denoiser r = None then
        (case NewNoiseFilter env w of
           ((dn, err), w') \<Rightarrow> (err \<noteq> None, r\<lparr>denoiser := dn\<rparr>, w'))
      else (False, r, w))"

text \<open>
  A reader cannot change the length of the caller's slice \<^verbatim>\<open>b\<close>: what the underlying
  reader reports as the contents of \<^verbatim>\<open>b\<close> is fitted to that length.
\<close>

definition fitBuffer :: "byte list \<Rightarrow> byte list \<Rightarrow> byte list" where
  "fitBuffer b contents = take (length b) (contents @ drop (length contents) b)"

text \<open>
  Lines 128-186. \<^verbatim>\<open>b[:n]\<close> panics when \<open>n\<close> is beyond the buffer (the buffer's
  capacity is taken to be its length). \<^verbatim>\<open>copy(b, newData)\<close> overwrites the first
  \<open>length newData\<close> bytes of \<^verbatim>\<open>b\<close>.
\<close>

definition Read ::
  "('w, 'e, 'h) env \<Rightarrow> ('w, 'e) noiseFilterReader \<Rightarrow> 'w \<Rightarrow> byte list \<Rightarrow> attributes \<Rightarrow>
     ('w, 'e) outcome option" where
  "Read env r w b a =
     (case reader r w b a of
        ((n, a1, err), contents, w1) \<Rightarrow>
          let b1 = fitBuffer b contents in
          if err \<noteq> None then
            Some \<lparr>ret_n = n, ret_a = a1, ret_err = err, out_b = b1, out_r = r, out_w = w1\<rparr>
          else
            (case initDenoiser env r w1 of
               (failed, r1, w2) \<Rightarrow>
                 if failed then
                   Some \<lparr>ret_n = n, ret_a = a1, ret_err = None, out_b = b1, out_r = r1, out_w = w2\<rparr>
                 else
                   let a2 = (case a1 of None \<Rightarrow> Some Map.empty | Some m \<Rightarrow> Some m) in
                   if length b1 < n then None
                   else
                     (case Unmarshal env (take n b1) of
                        None \<Rightarrow>
                          Some \<lparr>ret_n = n, ret_a = a2, ret_err = None, out_b = b1, out_r = r1, out_w = w2\<rparr>
                      | Some (header, payload) \<Rightarrow>
                          if 0 < length payload then
                            (case processAudioPayload env r1 payload of
                               None \<Rightarrow> None
                             | Some (processedPayload, r2) \<Rightarrow>
                                 (case Marshal env header processedPayload of
                                    None \<Rightarrow>
                                      Some \<lparr>ret_n = n, ret_a = a2, ret_err = None, out_b = b1,
                                            out_r = r2, out_w = w2\<rparr>
                                  | Some newData \<Rightarrow>
                                      if length newData \<le> length b1 then
                                        Some \<lparr>ret_n = length newData, ret_a = a2, ret_err = None,
                                              out_b = newData @ drop (length newData) b1,
                                              out_r = r2, out_w = w2\<rparr>
                                      else
                                        Some \<lparr>ret_n = n, ret_a = a2, ret_err = None, out_b = b1,
                                              out_r = r2, out_w = w2\<rparr>))
                          else
                            Some \<lparr>ret_n = n, ret_a = a2, ret_err = None, out_b = b1,
                                  out_r = r1, out_w = w2\<rparr>)))"

subsection \<open>BindRemoteStream\<close>

record RTPHeaderExtension =
  URI :: string
  ID :: int

text \<open>\<^verbatim>\<open>interceptor.StreamInfo\<close>; \<open>None\<close> is the \<^verbatim>\<open>nil\<close> slice of extensions.\<close>

record StreamInfo =
  SSRC :: "32 word"
  RTPHeaderExtensions :: "RTPHeaderExtension list option"

record NoiseFilterFactory =
  factory_config :: NoiseFilterConfig

record NoiseFilterInterceptor =
  factory :: NoiseFilterFactory

definition GetConfig :: "NoiseFilterFactory \<Rightarrow> NoiseFilterConfig" where
  "GetConfig f = factory_config f"

text \<open>
  Modelled from the spec: \<^verbatim>\<open>utils.GetHeaderExtensionID\<close> (package pkg/sfu/utils) is
  called by \<^verbatim>\<open>BindRemoteStream\<close> and is not among the source files. The spec (4.1) has
  suppression attached only if "the stream's extension set includes the audio-level
  indicator extension", and the caller takes the result \<open>0\<close> for "not an audio
  stream": the model returns the id of the first extension with the given URI, and
  \<open>0\<close> when there is none.
\<close>

fun GetHeaderExtensionID :: "RTPHeaderExtension list \<Rightarrow> string \<Rightarrow> int" where
  "GetHeaderExtensionID [] uri = 0"
| "GetHeaderExtensionID (h # hs) uri =
     (if URI h = uri then ID h else GetHeaderExtensionID hs uri)"

definition audioLevelURI :: string where
  "audioLevelURI = ''urn:ietf:params:rtp-hdrext:ssrc-audio-level''"

text \<open>
  The value of the interface \<^verbatim>\<open>interceptor.RTPReader\<close> that \<^verbatim>\<open>BindRemoteStream\<close>
  returns: the reader it was given, or a new \<^verbatim>\<open>noiseFilterReader\<close> around it.
\<close>

datatype ('w, 'e) boundReader =
  OriginalReader "'w RTPReader"
| NoiseFilterReader "('w, 'e) noiseFilterReader"

definition BindRemoteStream ::
  "NoiseFilterInterceptor \<Rightarrow> StreamInfo \<Rightarrow> 'w RTPReader \<Rightarrow> ('w, 'e) boundReader" where
  "BindRemoteStream n info rd =
     (case RTPHeaderExtensions info of
        None \<Rightarrow> OriginalReader rd
      | Some exts \<Rightarrow>
          let cfg = GetConfig (factory n) in
          if \<not> Enabled cfg then OriginalReader rd
          else
            let audioLevelExtID = GetHeaderExtensionID exts audioLevelURI in
            if audioLevelExtID = 0 then OriginalReader rd
            else NoiseFilterReader
                   \<lparr>reader = rd, config = cfg, denoiser = None, buffer = []\<rparr>)"

text \<open>
  A call of \<^verbatim>\<open>Read\<close> through the interface: the results, the buffer, the world, and
  the reader as the call leaves it.
\<close>

definition boundRead ::
  "('w, 'e, 'h) env \<Rightarrow> ('w, 'e) boundReader \<Rightarrow> 'w \<Rightarrow> byte list \<Rightarrow> attributes \<Rightarrow>
     (((nat \<times> attributes \<times> go_error option) \<times> byte list \<times> 'w) \<times> ('w, 'e) boundReader) option" where
  "boundRead env br w b a =
     (case br of
        OriginalReader rd \<Rightarrow> Some (rd w b a, OriginalReader rd)
      | NoiseFilterReader r \<Rightarrow>
          (case Read env r w b a of
             None \<Rightarrow> None
           | Some res \<Rightarrow>
               Some (((ret_n res, ret_a res, ret_err res), out_b res, out_w res),
                     NoiseFilterReader (out_r res))))"

text \<open>
  The readers a stream can hold: the one \<^verbatim>\<open>BindRemoteStream\<close> made, and the one any
  returning call of \<^verbatim>\<open>Read\<close> leaves.
\<close>

inductive reachable ::
  "('w, 'e, 'h) env \<Rightarrow> ('w, 'e) noiseFilterReader \<Rightarrow> bool" for env :: "('w, 'e, 'h) env" where
  bound: "BindRemoteStream n info rd = NoiseFilterReader r \<Longrightarrow> reachable env r"
| read: "reachable env r \<Longrightarrow> Read env r w b a = Some res \<Longrightarrow> reachable env (out_r res)"

subsection \<open>Auxiliary\<close>

text \<open>The 16-bit value the bytes \<open>2 * i\<close> and \<open>2 * i + 1\<close> of a frame encode.\<close>

definition int16At :: "byte list \<Rightarrow> nat \<Rightarrow> 16 word" where
  "int16At frame i = ucast (frame ! (i * 2)) OR push_bit 8 (ucast (frame ! (i * 2 + 1)))"

subsection \<open>Concrete values\<close>

text \<open>
  A transport that fills the whole buffer, as the readers of the package's tests do,
  and an environment: creating a denoiser fails the first time it is tried and
  succeeds afterwards, the world counting the attempts; the denoiser answers every
  frame with silence; a packet is a 12-byte header followed by the payload.
\<close>

definition ex_reader :: "nat RTPReader" where
  "ex_reader = (\<lambda>w b a. ((length b, a, None), b, w))"

definition ex_config :: NoiseFilterConfig where
  "ex_config = \<lparr>Enabled = True, Threshold = 1 / 2, Aggressive = False\<rparr>"

definition ex_interceptor :: NoiseFilterInterceptor where
  "ex_interceptor = \<lparr>factory = \<lparr>factory_config = ex_config\<rparr>\<rparr>"

definition ex_video_info :: StreamInfo where
  "ex_video_info = \<lparr>SSRC = 12345, RTPHeaderExtensions = Some []\<rparr>"

definition ex_env :: "(nat, unit, byte list) env" where
  "ex_env =
     \<lparr>NewNoiseFilter =
        (\<lambda>w. ((if w = 0 then (None, Some ''unavailable'') else (Some (), None)), w + 1)),
      FilterStream = (\<lambda>e samples threshold. ((map (\<lambda>_. 0) samples, True, None), e)),
      Unmarshal = (\<lambda>d. if length d < 12 then None else Some (take 12 d, drop 12 d)),
      Marshal = (\<lambda>header payload. Some (header @ payload))\<rparr>"

text \<open>A reader that holds a denoiser and an empty accumulator.\<close>

definition ex_active :: "(nat, unit) noiseFilterReader" where
  "ex_active = \<lparr>reader = ex_reader, config = ex_config, denoiser = Some (), buffer = []\<rparr>"

text \<open>
  The reader \<^verbatim>\<open>BindRemoteStream\<close> makes for an audio stream, a header of 12 bytes, a
  packet of one frame, a packet of three payload bytes, and a variant of the
  environment whose \<^verbatim>\<open>Marshal\<close> appends four bytes of padding.
\<close>

definition ex_filter :: "(nat, unit) noiseFilterReader" where
  "ex_filter = \<lparr>reader = ex_reader, config = ex_config, denoiser = None, buffer = []\<rparr>"

definition ex_audio_info :: StreamInfo where
  "ex_audio_info =
     \<lparr>SSRC = 12345,
      RTPHeaderExtensions = Some [\<lparr>URI = ''urn:ietf:params:rtp-hdrext:ssrc-audio-level'', ID = 1\<rparr>]\<rparr>"

definition ex_header :: "byte list" where
  "ex_header = [0x80, 0x6F, 0x00, 0x01, 0x00, 0x00, 0xBB, 0x80, 0x00, 0x00, 0x30, 0x39]"

definition ex_env_padding :: "(nat, unit, byte list) env" where
  "ex_env_padding = ex_env\<lparr>Marshal := (\<lambda>header payload. Some (header @ payload @ [0, 0, 0, 4]))\<rparr>"

definition ex_short_packet :: "byte list" where
  "ex_short_packet = ex_header @ [1, 2, 3]"

definition ex_packet :: "byte list" where
  "ex_packet = ex_header @ replicate 960 1"

text \<open>
  Variants of the environment whose denoiser reports every frame as one not to keep,
  or fails on every frame (with and without the keep flag), and a frame of 480
  samples of value 1000.
\<close>

definition ex_env_noise :: "(nat, unit, byte list) env" where
  "ex_env_noise = ex_env\<lparr>FilterStream := (\<lambda>e samples threshold. ((samples, False, None), e))\<rparr>"

definition ex_env_failing :: "(nat, unit, byte list) env" where
  "ex_env_failing = ex_env\<lparr>FilterStream := (\<lambda>e samples threshold. (([], False, Some ''failed''), e))\<rparr>"

definition ex_env_failing_keep :: "(nat, unit, byte list) env" where
  "ex_env_failing_keep =
     ex_env\<lparr>FilterStream := (\<lambda>e samples threshold. ((samples, True, Some ''failed''), e))\<rparr>"

definition ex_frame :: "byte list" where
  "ex_frame = concat (replicate 480 [0xE8, 0x03])"

section \<open>Properties\<close>

subsection \<open>BindRemoteStream\<close>

lemma GetHeaderExtensionID_absent:
  "\<forall>h \<in> set exts. URI h \<noteq> uri \<Longrightarrow> GetHeaderExtensionID exts uri = 0"
  by (induction exts) auto

text \<open>
  Claim C7. A stream bound with no extension metadata (\<^verbatim>\<open>nil\<close>), or with extensions
  none of which is the ssrc-audio-level one (the empty set included), or while the
  configuration has \<open>Enabled = False\<close>, gets no filter: \<^verbatim>\<open>BindRemoteStream\<close> returns
  the reader it was given, and a read through what it returned is that reader's read.
\<close>

theorem BindRemoteStream_pass_through:
  fixes env :: "('w, 'e, 'h) env"
  assumes "RTPHeaderExtensions info = None
           \<or> (\<exists>exts. RTPHeaderExtensions info = Some exts
                 \<and> (\<forall>h \<in> set exts. URI h \<noteq> audioLevelURI))
           \<or> \<not> Enabled (GetConfig (factory n))"
  shows "(BindRemoteStream n info rd :: ('w, 'e) boundReader) = OriginalReader rd
         \<and> boundRead env (BindRemoteStream n info rd) w b a = Some (rd w b a, OriginalReader rd)"
proof -
  have "(BindRemoteStream n info rd :: ('w, 'e) boundReader) = OriginalReader rd"
    using assms
    by (auto simp: BindRemoteStream_def Let_def GetHeaderExtensionID_absent split: option.splits)
  then show ?thesis by (simp add: boundRead_def)
qed

theorem BindRemoteStream_pass_through_witness:
  "RTPHeaderExtensions ex_video_info = Some []
   \<and> BindRemoteStream ex_interceptor ex_video_info ex_reader
       = (OriginalReader ex_reader :: (nat, unit) boundReader)
   \<and> boundRead ex_env (BindRemoteStream ex_interceptor ex_video_info ex_reader) 0 [1, 2, 3] None
       = Some (ex_reader 0 [1, 2, 3] None, OriginalReader ex_reader)"
proof -
  have h: "RTPHeaderExtensions ex_video_info = Some []"
    by (simp add: ex_video_info_def)
  have "BindRemoteStream ex_interceptor ex_video_info ex_reader
          = (OriginalReader ex_reader :: (nat, unit) boundReader)
     \<and> boundRead ex_env (BindRemoteStream ex_interceptor ex_video_info ex_reader) 0 [1, 2, 3] None
          = Some (ex_reader 0 [1, 2, 3] None, OriginalReader ex_reader)"
    by (rule BindRemoteStream_pass_through) (simp add: h)
  with h show ?thesis by blast
qed

subsection \<open>Frames\<close>

lemmas frame_consts = rnnoiseFrameBytes_def rnnoiseFrameSize_def rnnoiseBytesPerSample_def

lemma rnnoiseFrameBytes_pos: "0 < rnnoiseFrameBytes"
  by (simp add: frame_consts)

lemma collect_map:
  "(\<And>x. x \<in> set xs \<Longrightarrow> f x = Some (g x)) \<Longrightarrow> collect (map f xs) = Some (map g xs)"
  by (induction xs) auto

lemma collect_length: "collect xs = Some ys \<Longrightarrow> length ys = length xs"
proof (induction xs arbitrary: ys)
  case Nil
  then show ?case by simp
next
  case (Cons x xs)
  then show ?case by (cases x) (auto split: option.splits)
qed

lemma LittleEndian_Uint16_drop:
  assumes "k + 1 < length bs"
  shows "LittleEndian_Uint16 (drop k bs) = Some (ucast (bs ! k) OR push_bit 8 (ucast (bs ! (k + 1))))"
proof -
  have "drop k bs = bs ! k # bs ! (k + 1) # drop (k + 2) bs"
    using assms by (simp add: Cons_nth_drop_Suc)
  then show ?thesis by simp
qed

lemma sampleAt_Some:
  "i * 2 + 1 < length frame \<Longrightarrow>
   sampleAt frame i = Some (f32_div (float32_of_int16 (int16At frame i)) 32768)"
  by (simp add: sampleAt_def LittleEndian_Uint16_drop int16At_def)

lemma frameSamples_Some:
  assumes "rnnoiseFrameBytes \<le> length frame"
  shows "frameSamples frame =
           Some (map (\<lambda>i. f32_div (float32_of_int16 (int16At frame i)) 32768) [0..<rnnoiseFrameSize])"
  unfolding frameSamples_def
proof (rule collect_map)
  fix i assume "i \<in> set [0..<rnnoiseFrameSize]"
  with assms have "i * 2 + 1 < length frame" by (simp add: frame_consts)
  then show "sampleAt frame i = Some (f32_div (float32_of_int16 (int16At frame i)) 32768)"
    by (rule sampleAt_Some)
qed

lemma frameSamples_length:
  "frameSamples frame = Some samples \<Longrightarrow> length samples = rnnoiseFrameSize"
  by (auto simp: frameSamples_def dest: collect_length)

lemma fold_store:
  "k + length d \<le> length s \<Longrightarrow>
   fold (\<lambda>(i, x) smp. smp[i := f x]) (enumerate k d) s = take k s @ map f d @ drop (k + length d) s"
proof (induction d arbitrary: k s)
  case Nil
  then show ?case by simp
next
  case (Cons x d)
  have "fold (\<lambda>(i, x) smp. smp[i := f x]) (enumerate k (x # d)) s
        = fold (\<lambda>(i, x) smp. smp[i := f x]) (enumerate (Suc k) d) (s[k := f x])"
    by simp
  also have "\<dots> = take (Suc k) (s[k := f x]) @ map f d @ drop (Suc k + length d) (s[k := f x])"
    using Cons.prems by (intro Cons.IH) simp
  also have "\<dots> = take k s @ map f (x # d) @ drop (k + length (x # d)) s"
    using Cons.prems by (simp add: take_Suc_conv_app_nth)
  finally show ?case .
qed

lemma storeDenoised_eq:
  "length d \<le> length s \<Longrightarrow> storeDenoised d s = Some (map clampSample d @ drop (length d) s)"
  using fold_store [of 0 d s clampSample] by (simp add: storeDenoised_def)

lemma storeDenoised_None: "length s < length d \<Longrightarrow> storeDenoised d s = None"
  by (simp add: storeDenoised_def)

lemma storeDenoised_length: "storeDenoised d s = Some s' \<Longrightarrow> length s' = length s"
  by (cases "length d \<le> length s") (auto simp: storeDenoised_eq storeDenoised_None)

lemma length_samplesBytes: "length (samplesBytes s) = 2 * length s"
  by (induction s) (auto simp: samplesBytes_def LittleEndian_PutUint16_def)

lemma suppress_length:
  "suppress env thr dn samples = Some (s', dn') \<Longrightarrow> length s' = length samples"
  by (auto simp: suppress_def attenuate_def split: option.splits prod.splits if_splits
           dest: storeDenoised_length)

lemma processFrame_length:
  "processFrame env thr dn frame = Some (pf, dn') \<Longrightarrow> length pf = rnnoiseFrameBytes"
  by (auto simp: processFrame_def length_samplesBytes frame_consts split: option.splits
           dest!: frameSamples_length suppress_length)

declare frameLoop.simps [simp del]

lemma frameLoop_facts:
  "frameLoop env r pd = Some (out, r') \<Longrightarrow>
     reader r' = reader r \<and> config r' = config r
     \<and> buffer r' = drop (length (buffer r) div rnnoiseFrameBytes * rnnoiseFrameBytes) (buffer r)
     \<and> length out = length pd + length (buffer r) div rnnoiseFrameBytes * rnnoiseFrameBytes
     \<and> take (length pd) out = pd"
proof (induction env r pd arbitrary: out r' rule: frameLoop.induct)
  case (1 env r pd)
  show ?case
  proof (cases "rnnoiseFrameBytes \<le> length (buffer r)")
    case False
    then have "length (buffer r) div rnnoiseFrameBytes = 0" by simp
    with False "1.prems" show ?thesis by (simp add: frameLoop.simps [of env r pd])
  next
    case True
    from True "1.prems" obtain pf dn' where
      pf: "processFrame env (Threshold (config r)) (denoiser r) (take rnnoiseFrameBytes (buffer r)) = Some (pf, dn')"
      and rec: "frameLoop env (r\<lparr>denoiser := dn', buffer := drop rnnoiseFrameBytes (buffer r)\<rparr>) (pd @ pf) = Some (out, r')"
      by (auto simp: frameLoop.simps [of env r pd] split: option.splits)
    have len: "length pf = rnnoiseFrameBytes" using pf by (rule processFrame_length)
    note ih = "1.IH" [OF True pf refl rec]
    have d: "length (buffer r) div rnnoiseFrameBytes
             = Suc ((length (buffer r) - rnnoiseFrameBytes) div rnnoiseFrameBytes)"
      using True rnnoiseFrameBytes_pos by (simp add: le_div_geq)
    from ih have "take (length pd) (take (length (pd @ pf)) out) = take (length pd) (pd @ pf)"
      by simp
    then have tk: "take (length pd) out = pd"
      by (simp add: min_def)
    show ?thesis using ih len d tk
      by (auto simp: add.commute)
  qed
qed

subsection \<open>The frame loop and processAudioPayload\<close>

lemma processAudioPayload_short:
  "length payload < rnnoiseFrameBytes \<Longrightarrow> processAudioPayload env r payload = Some (payload, r)"
  by (simp add: processAudioPayload_def)

lemma processAudioPayload_long:
  assumes "rnnoiseFrameBytes \<le> length payload"
    and "processAudioPayload env r payload = Some (out, r')"
  shows "buffer r' = [] \<and> reader r' = reader r \<and> config r' = config r
         \<and> length out = length (buffer r) + length payload
         \<and> drop (length (buffer r @ payload) div rnnoiseFrameBytes * rnnoiseFrameBytes) out
             = drop (length (buffer r @ payload) div rnnoiseFrameBytes * rnnoiseFrameBytes)
                 (buffer r @ payload)"
proof -
  let ?k = "length (buffer r @ payload) div rnnoiseFrameBytes"
  from assms obtain pd r1 where
    loop: "frameLoop env (r\<lparr>buffer := buffer r @ payload\<rparr>) [] = Some (pd, r1)"
    and res: "(out, r') = (if 0 < length (buffer r1) then (pd @ buffer r1, r1\<lparr>buffer := []\<rparr>) else (pd, r1))"
    by (auto simp: processAudioPayload_def split: option.splits if_splits)
  from frameLoop_facts [OF loop]
  have f: "reader r1 = reader r" "config r1 = config r"
    "buffer r1 = drop (?k * rnnoiseFrameBytes) (buffer r @ payload)"
    "length pd = ?k * rnnoiseFrameBytes"
    by simp_all
  have out: "out = pd @ buffer r1" and b: "buffer r' = []"
    and rc: "reader r' = reader r1" "config r' = config r1"
    using res by (auto split: if_splits)
  have kle: "?k * rnnoiseFrameBytes \<le> length (buffer r @ payload)"
    by (rule div_times_less_eq_dividend)
  have "length (buffer r1) = length (buffer r @ payload) - ?k * rnnoiseFrameBytes"
    unfolding f(3) by (rule length_drop)
  with kle have "length pd + length (buffer r1) = length (buffer r @ payload)"
    unfolding f(4) by linarith
  then have "length out = length (buffer r) + length payload"
    unfolding out by simp
  moreover have "drop (?k * rnnoiseFrameBytes) out = buffer r1"
    unfolding out using f(4) by simp
  ultimately show ?thesis using b rc f(1,2,3) by simp
qed

lemma frameLoop_acc:
  "frameLoop env r (pd @ pd') =
     (case frameLoop env r pd' of None \<Rightarrow> None | Some (out, r') \<Rightarrow> Some (pd @ out, r'))"
proof (induction env r pd' arbitrary: pd rule: frameLoop.induct)
  case (1 env r pd')
  show ?case
  proof (cases "rnnoiseFrameBytes \<le> length (buffer r)")
    case False
    then show ?thesis
      by (simp add: frameLoop.simps [of env r "pd @ pd'"] frameLoop.simps [of env r pd'])
  next
    case True
    show ?thesis
    proof (cases "processFrame env (Threshold (config r)) (denoiser r) (take rnnoiseFrameBytes (buffer r))")
      case None
      with True show ?thesis
        by (simp add: frameLoop.simps [of env r "pd @ pd'"] frameLoop.simps [of env r pd'])
    next
      case (Some a)
      obtain pf dn' where a: "a = (pf, dn')" by (cases a)
      from "1.IH" [OF True Some [unfolded a] refl, of pd]
      show ?thesis using True Some a
        by (simp add: frameLoop.simps [of env r "pd @ pd'"] frameLoop.simps [of env r pd'])
    qed
  qed
qed

lemma frameLoop_append_aligned:
  "length A = k * rnnoiseFrameBytes \<Longrightarrow>
   frameLoop env (r\<lparr>buffer := A @ B\<rparr>) pd =
     (case frameLoop env (r\<lparr>buffer := A\<rparr>) pd of
        None \<Rightarrow> None
      | Some (out, r1) \<Rightarrow> frameLoop env (r1\<lparr>buffer := B\<rparr>) out)"
proof (induction k arbitrary: A r pd)
  case 0
  then have "A = []" by simp
  then show ?case
    using rnnoiseFrameBytes_pos by (simp add: frameLoop.simps [of env "r\<lparr>buffer := []\<rparr>" pd])
next
  case (Suc k)
  then have len: "rnnoiseFrameBytes \<le> length A" by simp
  have dl: "length (drop rnnoiseFrameBytes A) = k * rnnoiseFrameBytes"
    using Suc.prems by simp
  show ?case
  proof (cases "processFrame env (Threshold (config r)) (denoiser r) (take rnnoiseFrameBytes A)")
    case None
    with len show ?thesis
      by (simp add: frameLoop.simps [of env "r\<lparr>buffer := A @ B\<rparr>" pd]
                    frameLoop.simps [of env "r\<lparr>buffer := A\<rparr>" pd])
  next
    case (Some a)
    obtain pf dn' where a: "a = (pf, dn')" by (cases a)
    from Suc.IH [OF dl, of "r\<lparr>denoiser := dn'\<rparr>" "pd @ pf"]
    show ?thesis using len Some a
      by (simp add: frameLoop.simps [of env "r\<lparr>buffer := A @ B\<rparr>" pd]
                    frameLoop.simps [of env "r\<lparr>buffer := A\<rparr>" pd])
  qed
qed

lemma processAudioPayload_aligned_split:
  assumes "buffer r = []" and "length A = k * rnnoiseFrameBytes" and "0 < k"
  shows "processAudioPayload env r (A @ B) =
           (case processAudioPayload env r A of
              None \<Rightarrow> None
            | Some (outA, rA) \<Rightarrow>
                (case processAudioPayload env rA B of
                   None \<Rightarrow> None
                 | Some (outB, rAB) \<Rightarrow> Some (outA @ outB, rAB)))"
proof -
  from assms have lenA: "rnnoiseFrameBytes \<le> length A" by (cases k) auto
  then have lenAB: "\<not> length A + length B < rnnoiseFrameBytes" by simp
  have split: "frameLoop env (r\<lparr>buffer := A @ B\<rparr>) [] =
     (case frameLoop env (r\<lparr>buffer := A\<rparr>) [] of
        None \<Rightarrow> None
      | Some (out, r1) \<Rightarrow> frameLoop env (r1\<lparr>buffer := B\<rparr>) out)"
    using assms(2) by (rule frameLoop_append_aligned)
  show ?thesis
  proof (cases "frameLoop env (r\<lparr>buffer := A\<rparr>) []")
    case None
    with split lenA lenAB assms(1) show ?thesis
      by (simp add: processAudioPayload_def)
  next
    case (Some a)
    obtain outA r1 where a: "a = (outA, r1)" by (cases a)
    from frameLoop_facts [OF Some [unfolded a]] assms(2)
    have b1: "buffer r1 = []" by simp
    then have r1: "r1\<lparr>buffer := []\<rparr> = r1" by (cases r1) simp
    have first: "processAudioPayload env r A = Some (outA, r1)"
      using Some a lenA assms(1) b1 by (simp add: processAudioPayload_def)
    have one: "processAudioPayload env r (A @ B) =
       (case frameLoop env (r1\<lparr>buffer := B\<rparr>) outA of
          None \<Rightarrow> None
        | Some (pd, r') \<Rightarrow>
            if 0 < length (buffer r') then Some (pd @ buffer r', r'\<lparr>buffer := []\<rparr>)
            else Some (pd, r'))"
      using split Some a lenAB assms(1) by (simp add: processAudioPayload_def)
    show ?thesis
    proof (cases "length B < rnnoiseFrameBytes")
      case True
      then have "frameLoop env (r1\<lparr>buffer := B\<rparr>) outA = Some (outA, r1\<lparr>buffer := B\<rparr>)"
        by (simp add: frameLoop.simps [of env "r1\<lparr>buffer := B\<rparr>" outA])
      with one first True r1 show ?thesis
        by (auto simp: processAudioPayload_short)
    next
      case False
      have acc: "frameLoop env (r1\<lparr>buffer := B\<rparr>) outA =
         (case frameLoop env (r1\<lparr>buffer := B\<rparr>) [] of
            None \<Rightarrow> None | Some (out, r') \<Rightarrow> Some (outA @ out, r'))"
        using frameLoop_acc [of env "r1\<lparr>buffer := B\<rparr>" outA "[]"] by simp
      show ?thesis
        using one first False b1 acc
        by (auto simp: processAudioPayload_def split: option.splits)
    qed
  qed
qed

subsection \<open>A denoiser that answers with silence\<close>

lemma f32_round_0: "f32_round 0 = 0"
  by (simp add: f32_round_def)

lemma clampSample_0: "clampSample 0 = 0"
  by (simp add: clampSample_def f32_mul_def f32_round_0)

lemma samplesBytes_zero: "samplesBytes (map (\<lambda>_. 0) xs) = replicate (2 * length xs) 0"
  by (induction xs)
     (simp_all add: samplesBytes_def int16_of_float32_def f32_trunc_def LittleEndian_PutUint16_def)

lemma processFrame_ex_env:
  assumes "rnnoiseFrameBytes \<le> length frame"
  shows "processFrame ex_env thr (Some e) frame = Some (replicate rnnoiseFrameBytes 0, Some e)"
proof -
  obtain samples where s: "frameSamples frame = Some samples"
    using frameSamples_Some [OF assms] by simp
  have len: "length samples = rnnoiseFrameSize" using s by (rule frameSamples_length)
  have "storeDenoised (map (\<lambda>_. 0) samples) samples = Some (map (\<lambda>_. 0) samples)"
    by (simp add: storeDenoised_eq clampSample_0 comp_def)
  then have "suppress ex_env thr (Some e) samples = Some (map (\<lambda>_. 0) samples, Some e)"
    by (simp add: suppress_def ex_env_def)
  then show ?thesis
    using s len by (simp add: processFrame_def samplesBytes_zero frame_consts)
qed

lemma processAudioPayload_ex_env_one_frame:
  assumes "rnnoiseFrameBytes \<le> length payload" and "length payload < 2 * rnnoiseFrameBytes"
    and "denoiser r = Some ()" and "buffer r = []"
  shows "processAudioPayload ex_env r payload
           = Some (replicate rnnoiseFrameBytes 0 @ drop rnnoiseFrameBytes payload, r)"
proof -
  let ?r1 = "r\<lparr>buffer := drop rnnoiseFrameBytes payload\<rparr>"
  have short: "\<not> rnnoiseFrameBytes \<le> length (drop rnnoiseFrameBytes payload)"
    using assms by simp
  have r: "r\<lparr>buffer := []\<rparr> = r" "r\<lparr>denoiser := Some ()\<rparr> = r"
    using assms(3,4) by (cases r; simp)+
  have r3: "\<And>X. r\<lparr>denoiser := Some (), buffer := X\<rparr> = r\<lparr>buffer := X\<rparr>"
    using assms(3) by (cases r) simp
  have "frameLoop ex_env (r\<lparr>buffer := payload\<rparr>) []
          = frameLoop ex_env ?r1 (replicate rnnoiseFrameBytes 0)"
    using assms(1,3)
    by (subst frameLoop.simps) (simp add: processFrame_ex_env r3)
  also have "\<dots> = Some (replicate rnnoiseFrameBytes 0, ?r1)"
    using short by (subst frameLoop.simps) simp
  finally have "frameLoop ex_env (r\<lparr>buffer := payload\<rparr>) [] = Some (replicate rnnoiseFrameBytes 0, ?r1)" .
  then show ?thesis
    using assms(1,4) r(1) by (auto simp: processAudioPayload_def)
qed

lemma ex_leftover_eval:
  "processAudioPayload ex_env ex_active (replicate 960 0 @ [7])
     = Some (replicate 960 0 @ [7], ex_active)"
proof -
  have "processAudioPayload ex_env ex_active (replicate 960 0 @ [7])
        = Some (replicate rnnoiseFrameBytes 0 @ drop rnnoiseFrameBytes (replicate 960 0 @ [7]), ex_active)"
    by (rule processAudioPayload_ex_env_one_frame)
       (simp_all add: frame_consts ex_active_def)
  then show ?thesis by (simp add: frame_consts)
qed

text \<open>
  Claim C1 says that the bytes left over after the complete frames stay in the
  accumulator and are not emitted, so that the output has a whole number of frames.
  The source appends them to the output and clears the accumulator (lines 254-258):
  a payload of 961 bytes gives 961 bytes, the last one the leftover byte, and an empty
  accumulator.
\<close>

theorem processAudioPayload_leftover_counterexample:
  "processAudioPayload ex_env ex_active (replicate 960 0 @ [7])
     = Some (replicate 960 0 @ [7], ex_active)
   \<and> length (replicate 960 (0 :: byte) @ [7]) \<noteq> 1 * rnnoiseFrameBytes
   \<and> buffer ex_active = []"
  using ex_leftover_eval by (simp add: frame_consts ex_active_def)

text \<open>
  Claim C1, amended. For a payload of at least one frame, with \<open>k\<close> complete frames
  in accumulator and payload together, the output of \<^verbatim>\<open>processAudioPayload\<close> has
  \<open>k * rnnoiseFrameBytes\<close> bytes followed by the leftover bytes (fewer than one
  frame) as they came in, and the accumulator is empty afterwards.
\<close>

theorem processAudioPayload_leftover:
  assumes "processAudioPayload env r payload = Some (out, r')"
    and "rnnoiseFrameBytes \<le> length payload"
  shows "length out = length (buffer r @ payload) div rnnoiseFrameBytes * rnnoiseFrameBytes
                        + length (buffer r @ payload) mod rnnoiseFrameBytes
         \<and> drop (length (buffer r @ payload) div rnnoiseFrameBytes * rnnoiseFrameBytes) out
             = drop (length (buffer r @ payload) div rnnoiseFrameBytes * rnnoiseFrameBytes)
                 (buffer r @ payload)
         \<and> buffer r' = []"
  using processAudioPayload_long [OF assms(2,1)] by simp

theorem processAudioPayload_leftover_witness:
  "processAudioPayload ex_env ex_active (replicate 960 0 @ [7]) = Some (replicate 960 0 @ [7], ex_active)
   \<and> rnnoiseFrameBytes \<le> length (replicate 960 (0 :: byte) @ [7])
   \<and> length (replicate 960 (0 :: byte) @ [7]) = 1 * rnnoiseFrameBytes + 1
   \<and> drop (1 * rnnoiseFrameBytes) (replicate 960 (0 :: byte) @ [7]) = [7]
   \<and> buffer ex_active = []"
proof -
  have le: "rnnoiseFrameBytes \<le> length (replicate 960 (0 :: byte) @ [7])"
    by (simp add: frame_consts)
  from processAudioPayload_leftover [OF ex_leftover_eval le] le ex_leftover_eval
  show ?thesis by (simp add: frame_consts ex_active_def)
qed

lemma ex_unaligned_eval:
  "processAudioPayload ex_env ex_active (replicate 500 1 @ replicate 500 1)
     = Some (replicate 960 0 @ replicate 40 1, ex_active)"
proof -
  have "processAudioPayload ex_env ex_active (replicate 500 1 @ replicate 500 1)
        = Some (replicate rnnoiseFrameBytes 0
                  @ drop rnnoiseFrameBytes (replicate 500 1 @ replicate 500 1), ex_active)"
    by (rule processAudioPayload_ex_env_one_frame)
       (simp_all add: frame_consts ex_active_def)
  then show ?thesis by (simp add: frame_consts)
qed

text \<open>
  Claim C5 says that feeding \<open>A\<close> and then \<open>B\<close> gives the accumulator and the
  output of feeding \<open>A @ B\<close> at once. With two payloads of 500 bytes the first call
  returns its payload untouched (it is shorter than a frame; the second does the same),
  while the single call on the 1000 bytes puts the first 960 through the denoiser.
\<close>

theorem processAudioPayload_concat_counterexample:
  "processAudioPayload ex_env ex_active (replicate 500 1) = Some (replicate 500 1, ex_active)
   \<and> processAudioPayload ex_env ex_active (replicate 500 1 @ replicate 500 1)
       = Some (replicate 960 0 @ replicate 40 1, ex_active)
   \<and> replicate 960 0 @ replicate 40 1 \<noteq> replicate 500 (1 :: byte) @ replicate 500 1"
proof -
  have "processAudioPayload ex_env ex_active (replicate 500 1) = Some (replicate 500 1, ex_active)"
    by (rule processAudioPayload_short) (simp add: frame_consts)
  moreover have "replicate 960 0 @ replicate 40 1 \<noteq> replicate 500 (1 :: byte) @ replicate 500 1"
  proof
    assume "replicate 960 0 @ replicate 40 1 = replicate 500 (1 :: byte) @ replicate 500 1"
    then have "(replicate 960 0 @ replicate 40 1) ! 0 = (replicate 500 (1 :: byte) @ replicate 500 1) ! 0"
      by simp
    then show False by (simp add: nth_append)
  qed
  ultimately show ?thesis using ex_unaligned_eval by simp
qed

text \<open>
  Claim C5, amended. From an empty accumulator, when the length of \<open>A\<close> is a positive
  multiple of the frame size, feeding \<open>A\<close> and then \<open>B\<close> gives the same reader
  (accumulator and denoiser) and the same concatenated output as feeding \<open>A @ B\<close> in
  one call, and one panics exactly when the other does.
\<close>

theorem processAudioPayload_concat_aligned:
  assumes "buffer r = []" and "length A = k * rnnoiseFrameBytes" and "0 < k"
  shows "processAudioPayload env r (A @ B) =
           (case processAudioPayload env r A of
              None \<Rightarrow> None
            | Some (outA, rA) \<Rightarrow>
                (case processAudioPayload env rA B of
                   None \<Rightarrow> None
                 | Some (outB, rAB) \<Rightarrow> Some (outA @ outB, rAB)))"
  using assms by (rule processAudioPayload_aligned_split)

theorem processAudioPayload_concat_aligned_witness:
  "buffer ex_active = [] \<and> length (replicate 960 (1 :: byte)) = 1 * rnnoiseFrameBytes \<and> (0 :: nat) < 1
   \<and> processAudioPayload ex_env ex_active (replicate 960 1) = Some (replicate 960 0, ex_active)
   \<and> processAudioPayload ex_env ex_active [2, 3] = Some ([2, 3], ex_active)
   \<and> processAudioPayload ex_env ex_active (replicate 960 1 @ [2, 3])
       = Some (replicate 960 0 @ [2, 3], ex_active)"
proof -
  have b: "buffer ex_active = []" by (simp add: ex_active_def)
  have l: "length (replicate 960 (1 :: byte)) = 1 * rnnoiseFrameBytes" by (simp add: frame_consts)
  have A: "processAudioPayload ex_env ex_active (replicate 960 1) = Some (replicate 960 0, ex_active)"
    using processAudioPayload_ex_env_one_frame [of "replicate 960 1" ex_active]
    by (simp add: frame_consts ex_active_def)
  have B: "processAudioPayload ex_env ex_active [2, 3] = Some ([2, 3], ex_active)"
    by (rule processAudioPayload_short) (simp add: frame_consts)
  from processAudioPayload_concat_aligned [OF b l, of ex_env "[2, 3]"] A B b l
  show ?thesis by simp
qed

subsection \<open>Read\<close>

lemma fitBuffer_same_length: "length contents = length b \<Longrightarrow> fitBuffer b contents = contents"
  by (simp add: fitBuffer_def)

lemma length_fitBuffer: "length (fitBuffer b contents) = length b"
  by (simp add: fitBuffer_def)

lemma initDenoiser_buffer: "initDenoiser env r w = (failed, r1, w2) \<Longrightarrow> buffer r1 = buffer r"
  by (auto simp: initDenoiser_def split: if_splits prod.splits)

lemma processAudioPayload_buffer:
  assumes "processAudioPayload env r payload = Some (out, r')" and "buffer r = []"
  shows "buffer r' = []"
proof (cases "length payload < rnnoiseFrameBytes")
  case True
  with assms show ?thesis by (simp add: processAudioPayload_short)
next
  case False
  with processAudioPayload_long [of payload env r out r'] assms show ?thesis by simp
qed

lemma Read_buffer:
  assumes "Read env r w b a = Some res" and "buffer r = []"
  shows "buffer (out_r res) = []"
proof -
  obtain n a1 err contents w1 where rd: "reader r w b a = ((n, a1, err), contents, w1)"
    by (metis prod_cases3)
  obtain failed r1 w2 where ini: "initDenoiser env r w1 = (failed, r1, w2)"
    by (metis prod_cases3)
  have b1: "buffer r1 = []" using initDenoiser_buffer [OF ini] assms(2) by simp
  show ?thesis
    using assms rd ini b1
    by (auto simp: Read_def Let_def split: if_splits option.splits prod.splits
             dest: processAudioPayload_buffer)
qed

lemma BindRemoteStream_buffer:
  "BindRemoteStream n info rd = NoiseFilterReader r \<Longrightarrow> buffer r = []"
  by (auto simp: BindRemoteStream_def Let_def split: option.splits if_splits)

lemma reachable_buffer: "reachable env r \<Longrightarrow> buffer r = []"
proof (induction rule: reachable.induct)
  case (bound n info rd r)
  then show ?case by (rule BindRemoteStream_buffer)
next
  case (read r w b a res)
  then show ?case by (auto intro: Read_buffer)
qed

lemma ex_bind:
  "BindRemoteStream ex_interceptor ex_audio_info ex_reader = NoiseFilterReader ex_filter"
  by (simp add: BindRemoteStream_def ex_interceptor_def ex_audio_info_def ex_filter_def
                GetConfig_def ex_config_def audioLevelURI_def Let_def)

lemma ex_read_first:
  "Read ex_env ex_filter 0 ex_packet None
     = Some \<lparr>ret_n = 972, ret_a = None, ret_err = None, out_b = ex_packet,
             out_r = ex_filter, out_w = 1\<rparr>"
proof -
  have rd: "reader ex_filter 0 ex_packet None = ((972, None, None), ex_packet, 0)"
    by (simp add: ex_filter_def ex_reader_def ex_packet_def ex_header_def)
  have ini: "initDenoiser ex_env ex_filter 0 = (True, ex_filter, 1)"
    by (simp add: initDenoiser_def ex_filter_def ex_env_def)
  show ?thesis
    by (simp add: Read_def rd ini fitBuffer_same_length)
qed

lemma ex_read_second:
  "Read ex_env ex_filter 1 ex_packet None
     = Some \<lparr>ret_n = 972, ret_a = Some Map.empty, ret_err = None,
             out_b = ex_header @ replicate 960 0, out_r = ex_active, out_w = 2\<rparr>"
proof -
  have len: "length ex_packet = 972"
    by (simp add: ex_packet_def ex_header_def)
  have rd: "reader ex_filter (Suc 0) ex_packet None = ((972, None, None), ex_packet, Suc 0)"
    by (simp add: ex_filter_def ex_reader_def len)
  have ini: "initDenoiser ex_env ex_filter (Suc 0) = (False, ex_active, 2)"
    by (simp add: initDenoiser_def ex_filter_def ex_active_def ex_env_def)
  have um: "Unmarshal ex_env ex_packet = Some (ex_header, replicate 960 1)"
    by (simp add: ex_env_def ex_packet_def ex_header_def)
  have pr: "processAudioPayload ex_env ex_active (replicate 960 1) = Some (replicate 960 0, ex_active)"
    using processAudioPayload_ex_env_one_frame [of "replicate 960 1" ex_active]
    by (simp add: frame_consts ex_active_def)
  have ma: "Marshal ex_env ex_header (replicate 960 0) = Some (ex_header @ replicate 960 0)"
    by (simp add: ex_env_def)
  have l2: "length (ex_header @ replicate 960 (0 :: byte)) = 972"
    by (simp add: ex_header_def)
  show ?thesis
    by (simp add: Read_def Let_def rd ini fitBuffer_same_length len um pr ma l2 del: length_append)
qed

text \<open>
  Claim C2 says that after a failed creation of the denoiser every later packet is
  returned as it came and creation is never tried again. The source keeps nothing of
  the failure: the reader is left without a denoiser, and the next call finds
  \<^verbatim>\<open>r.denoiser == nil\<close> and calls \<^verbatim>\<open>NewNoiseFilter\<close> again. Here creation fails in
  the first call (the world counts one attempt) and succeeds in the second (two
  attempts), whose packet comes back denoised.
\<close>

theorem Read_creation_retried_counterexample:
  "Read ex_env ex_filter 0 ex_packet None
     = Some \<lparr>ret_n = 972, ret_a = None, ret_err = None, out_b = ex_packet,
             out_r = ex_filter, out_w = 1\<rparr>
   \<and> fst (NewNoiseFilter ex_env 0) = (None, Some ''unavailable'')
   \<and> Read ex_env ex_filter 1 ex_packet None
       = Some \<lparr>ret_n = 972, ret_a = Some Map.empty, ret_err = None,
               out_b = ex_header @ replicate 960 0, out_r = ex_active, out_w = 2\<rparr>
   \<and> ex_header @ replicate 960 0 \<noteq> ex_packet"
proof -
  have "ex_header @ replicate 960 0 \<noteq> ex_packet"
  proof
    assume "ex_header @ replicate 960 0 = ex_packet"
    then have "(ex_header @ replicate 960 0) ! 12 = ex_packet ! 12" by simp
    then show False by (simp add: ex_packet_def ex_header_def nth_append)
  qed
  then show ?thesis
    using ex_read_first ex_read_second by (simp add: ex_env_def)
qed

lemma Read_world:
  assumes "reader r w b a = ((n, a1, None), contents, w1)" and "denoiser r = None"
    and "Read env r w b a = Some res"
  shows "out_w res = snd (NewNoiseFilter env w1)"
proof -
  obtain dn err w2 where nf: "NewNoiseFilter env w1 = ((dn, err), w2)"
    by (cases "NewNoiseFilter env w1") auto
  then have ini: "initDenoiser env r w1 = (err \<noteq> None, r\<lparr>denoiser := dn\<rparr>, w2)"
    using assms(2) by (simp add: initDenoiser_def)
  show ?thesis
    using assms(3)
    by (auto simp: Read_def Let_def assms(1) ini nf split: if_splits option.splits prod.splits)
qed

lemma Read_creation_fails:
  assumes "reader r w b a = ((n, a1, None), contents, w1)" and "denoiser r = None"
    and "NewNoiseFilter env w1 = ((None, Some e), w2)"
  shows "Read env r w b a
           = Some \<lparr>ret_n = n, ret_a = a1, ret_err = None, out_b = fitBuffer b contents,
                   out_r = r, out_w = w2\<rparr>"
proof -
  have "r\<lparr>denoiser := None\<rparr> = r" using assms(2) by (cases r) simp
  then have "initDenoiser env r w1 = (True, r, w2)"
    using assms(2,3) by (simp add: initDenoiser_def)
  then show ?thesis by (simp add: Read_def assms(1))
qed

text \<open>
  Claim C2, amended. When the creation of the denoiser fails in a call of \<^verbatim>\<open>Read\<close>
  (no denoiser, an error), that call returns the packet as the underlying reader
  delivered it, with its length and no error, and leaves the reader as it was, still
  without a denoiser; the next call of \<^verbatim>\<open>Read\<close> that the transport serves attempts
  the creation again: the world it leaves is the one \<^verbatim>\<open>NewNoiseFilter\<close> returns.
\<close>

theorem Read_creation_failure:
  assumes "reader r w b a = ((n, a1, None), contents, w1)"
    and "denoiser r = None"
    and "NewNoiseFilter env w1 = ((None, Some e), w2)"
    and "reader r w2 b' a' = ((n', a1', None), contents', w3)"
    and "Read env r w2 b' a' = Some res'"
  shows "Read env r w b a
           = Some \<lparr>ret_n = n, ret_a = a1, ret_err = None, out_b = fitBuffer b contents,
                   out_r = r, out_w = w2\<rparr>
         \<and> out_w res' = snd (NewNoiseFilter env w3)"
  using Read_creation_fails [OF assms(1,2,3)] Read_world [OF assms(4,2,5)] by simp

theorem Read_creation_failure_witness:
  "reader ex_filter 0 ex_packet None = ((972, None, None), ex_packet, 0)
   \<and> denoiser ex_filter = None
   \<and> NewNoiseFilter ex_env 0 = ((None, Some ''unavailable''), 1)
   \<and> Read ex_env ex_filter 0 ex_packet None
       = Some \<lparr>ret_n = 972, ret_a = None, ret_err = None, out_b = fitBuffer ex_packet ex_packet,
               out_r = ex_filter, out_w = 1\<rparr>
   \<and> out_w \<lparr>ret_n = 972, ret_a = Some Map.empty, ret_err = None,
             out_b = ex_header @ replicate 960 0, out_r = ex_active, out_w = 2\<rparr>
       = snd (NewNoiseFilter ex_env 1)"
proof -
  have len: "length ex_packet = 972"
    by (simp add: ex_packet_def ex_header_def)
  have h1: "reader ex_filter 0 ex_packet None = ((972, None, None), ex_packet, 0)"
    by (simp add: ex_filter_def ex_reader_def len)
  have h2: "denoiser ex_filter = None" by (simp add: ex_filter_def)
  have h3: "NewNoiseFilter ex_env 0 = ((None, Some ''unavailable''), 1)"
    by (simp add: ex_env_def)
  have h4: "reader ex_filter 1 ex_packet None = ((972, None, None), ex_packet, 1)"
    by (simp add: ex_filter_def ex_reader_def len)
  from Read_creation_failure [OF h1 h2 h3 h4 ex_read_second] h1 h2 h3
  show ?thesis by simp
qed

lemma Read_short:
  assumes "reader r w b a = ((n, a1, None), contents, w1)"
    and "n \<le> length b"
    and "Unmarshal env (take n (fitBuffer b contents)) = Some (header, payload)"
    and "length payload < rnnoiseFrameBytes"
    and "\<forall>d. Marshal env header payload = Some d \<longrightarrow> d = take n (fitBuffer b contents)"
  shows "\<exists>res. Read env r w b a = Some res \<and> ret_n res = n \<and> ret_err res = None
               \<and> out_b res = fitBuffer b contents \<and> buffer (out_r res) = buffer r"
proof -
  obtain failed r1 w2 where ini: "initDenoiser env r w1 = (failed, r1, w2)"
    by (metis prod_cases3)
  have b1: "buffer r1 = buffer r" using ini by (rule initDenoiser_buffer)
  have n: "\<not> length (fitBuffer b contents) < n" using assms(2) by (simp add: length_fitBuffer)
  have pr: "processAudioPayload env r1 payload = Some (payload, r1)"
    using assms(4) by (rule processAudioPayload_short)
  show ?thesis
  proof (cases "Marshal env header payload")
    case None
    then show ?thesis
      using b1 n by (simp add: Read_def Let_def assms(1,3) ini pr)
  next
    case (Some d)
    with assms(5) have d: "d = take n (fitBuffer b contents)" by simp
    have "length d = n" using assms(2) by (simp add: d length_fitBuffer)
    moreover have "d @ drop n (fitBuffer b contents) = fitBuffer b contents" by (simp add: d)
    ultimately show ?thesis
      using b1 n Some assms(2) by (simp add: Read_def Let_def assms(1,3) ini pr length_fitBuffer)
  qed
qed

text \<open>
  Claim C6. For a packet whose payload is shorter than one frame, \<^verbatim>\<open>Read\<close> returns
  the length and the bytes the underlying reader delivered, with no error, and leaves
  the accumulator unchanged. The payload goes through \<^verbatim>\<open>processAudioPayload\<close>
  untouched and is serialised again with the parsed header; pion/rtp is a parameter
  here, taken to reproduce the packet when it serialises the header and payload it
  parsed from it (and it may fail).
\<close>

theorem Read_short_payload:
  assumes "reader r w b a = ((n, a1, None), contents, w1)"
    and "n \<le> length b"
    and "Unmarshal env (take n (fitBuffer b contents)) = Some (header, payload)"
    and "length payload < rnnoiseFrameBytes"
    and "\<forall>d. Marshal env header payload = Some d \<longrightarrow> d = take n (fitBuffer b contents)"
  shows "\<exists>res. Read env r w b a = Some res \<and> ret_n res = n \<and> ret_err res = None
               \<and> out_b res = fitBuffer b contents \<and> buffer (out_r res) = buffer r"
  using assms by (rule Read_short)

theorem Read_short_payload_witness:
  "reader ex_active 5 ex_short_packet None = ((15, None, None), ex_short_packet, 5)
   \<and> Unmarshal ex_env (take 15 (fitBuffer ex_short_packet ex_short_packet)) = Some (ex_header, [1, 2, 3])
   \<and> length [1, 2, 3 :: byte] < rnnoiseFrameBytes
   \<and> Marshal ex_env ex_header [1, 2, 3] = Some (take 15 (fitBuffer ex_short_packet ex_short_packet))
   \<and> (\<exists>res. Read ex_env ex_active 5 ex_short_packet None = Some res \<and> ret_n res = 15
          \<and> ret_err res = None \<and> out_b res = fitBuffer ex_short_packet ex_short_packet
          \<and> buffer (out_r res) = buffer ex_active)"
proof -
  have len: "length ex_short_packet = 15"
    by (simp add: ex_short_packet_def ex_header_def)
  have fit: "fitBuffer ex_short_packet ex_short_packet = ex_short_packet"
    by (simp add: fitBuffer_same_length)
  have t: "take 15 (fitBuffer ex_short_packet ex_short_packet) = ex_short_packet"
    by (simp add: fit len)
  have h1: "reader ex_active 5 ex_short_packet None = ((15, None, None), ex_short_packet, 5)"
    by (simp add: ex_active_def ex_reader_def len)
  have h2: "15 \<le> length ex_short_packet" by (simp add: len)
  have h3: "Unmarshal ex_env (take 15 (fitBuffer ex_short_packet ex_short_packet)) = Some (ex_header, [1, 2, 3])"
    unfolding t by (simp add: ex_env_def ex_short_packet_def ex_header_def)
  have h4: "length [1, 2, 3 :: byte] < rnnoiseFrameBytes" by (simp add: frame_consts)
  have m: "Marshal ex_env ex_header [1, 2, 3] = Some (take 15 (fitBuffer ex_short_packet ex_short_packet))"
    unfolding t by (simp add: ex_env_def ex_short_packet_def ex_header_def)
  then have h5: "\<forall>d. Marshal ex_env ex_header [1, 2, 3] = Some d
                   \<longrightarrow> d = take 15 (fitBuffer ex_short_packet ex_short_packet)"
    by simp
  from Read_short_payload [OF h1 h2 h3 h4 h5] h1 h3 h4 m
  show ?thesis by blast
qed

text \<open>
  Claim C8. When the packet serialised from the processed payload is longer than the
  caller's buffer, \<^verbatim>\<open>Read\<close> returns the length the underlying reader returned and no
  error, and the buffer holds what the underlying reader left in it.
\<close>

theorem Read_output_too_large:
  assumes "reader r w b a = ((n, a1, None), contents, w1)"
    and "initDenoiser env r w1 = (False, r1, w2)"
    and "n \<le> length b"
    and "Unmarshal env (take n (fitBuffer b contents)) = Some (header, payload)"
    and "0 < length payload"
    and "processAudioPayload env r1 payload = Some (processedPayload, r2)"
    and "Marshal env header processedPayload = Some newData"
    and "length b < length newData"
  shows "Read env r w b a
           = Some \<lparr>ret_n = n, ret_a = (case a1 of None \<Rightarrow> Some Map.empty | Some m \<Rightarrow> Some m),
                   ret_err = None, out_b = fitBuffer b contents, out_r = r2, out_w = w2\<rparr>"
  using assms(3,5,8)
  by (simp add: Read_def Let_def assms(1,2,4,6,7) length_fitBuffer)

theorem Read_output_too_large_witness:
  "reader ex_active 5 ex_short_packet None = ((15, None, None), ex_short_packet, 5)
   \<and> initDenoiser ex_env_padding ex_active 5 = (False, ex_active, 5)
   \<and> Unmarshal ex_env_padding (take 15 (fitBuffer ex_short_packet ex_short_packet)) = Some (ex_header, [1, 2, 3])
   \<and> processAudioPayload ex_env_padding ex_active [1, 2, 3] = Some ([1, 2, 3], ex_active)
   \<and> Marshal ex_env_padding ex_header [1, 2, 3] = Some (ex_header @ [1, 2, 3] @ [0, 0, 0, 4])
   \<and> length ex_short_packet < length (ex_header @ [1, 2, 3] @ [0, 0, 0, 4 :: byte])
   \<and> Read ex_env_padding ex_active 5 ex_short_packet None
       = Some \<lparr>ret_n = 15, ret_a = Some Map.empty, ret_err = None,
               out_b = fitBuffer ex_short_packet ex_short_packet, out_r = ex_active, out_w = 5\<rparr>"
proof -
  have len: "length ex_short_packet = 15"
    by (simp add: ex_short_packet_def ex_header_def)
  have fit: "fitBuffer ex_short_packet ex_short_packet = ex_short_packet"
    by (simp add: fitBuffer_same_length)
  have t: "take 15 (fitBuffer ex_short_packet ex_short_packet) = ex_short_packet"
    by (simp add: fit len)
  have h1: "reader ex_active 5 ex_short_packet None = ((15, None, None), ex_short_packet, 5)"
    by (simp add: ex_active_def ex_reader_def len)
  have h2: "initDenoiser ex_env_padding ex_active 5 = (False, ex_active, 5)"
    by (simp add: initDenoiser_def ex_active_def)
  have h3: "15 \<le> length ex_short_packet" by (simp add: len)
  have h4: "Unmarshal ex_env_padding (take 15 (fitBuffer ex_short_packet ex_short_packet)) = Some (ex_header, [1, 2, 3])"
    unfolding t by (simp add: ex_env_padding_def ex_env_def ex_short_packet_def ex_header_def)
  have h5: "0 < length [1, 2, 3 :: byte]" by simp
  have h6: "processAudioPayload ex_env_padding ex_active [1, 2, 3] = Some ([1, 2, 3], ex_active)"
    by (rule processAudioPayload_short) (simp add: frame_consts)
  have h7: "Marshal ex_env_padding ex_header [1, 2, 3] = Some (ex_header @ [1, 2, 3] @ [0, 0, 0, 4])"
    by (simp add: ex_env_padding_def)
  have h8: "length ex_short_packet < length (ex_header @ [1, 2, 3] @ [0, 0, 0, 4 :: byte])"
    by (simp add: len ex_header_def)
  from Read_output_too_large [OF h1 h2 h3 h4 h5 h6 h7 h8] h1 h2 h4 h6 h7 h8
  show ?thesis by simp
qed

text \<open>
  Claim C10. The accumulator of every reader a stream can hold is empty: the one
  \<^verbatim>\<open>BindRemoteStream\<close> makes, and the one left by any call of \<^verbatim>\<open>Read\<close> that
  returns.
\<close>

theorem accumulator_empty:
  "reachable env r \<Longrightarrow> buffer r = []"
  by (rule reachable_buffer)

theorem accumulator_empty_witness:
  "reachable ex_env ex_active \<and> buffer ex_active = []"
proof -
  have "reachable ex_env ex_filter"
    by (rule reachable.bound) (rule ex_bind)
  from reachable.read [OF this ex_read_second]
  have "reachable ex_env ex_active" by simp
  with accumulator_empty [of ex_env ex_active] show ?thesis by simp
qed

subsection \<open>Rounding to float32\<close>

lemma round_half_even_of_int: "round_half_even (of_int n) = n"
  by (simp add: round_half_even_def)

lemma round_half_even_ge: "of_int n \<le> x \<Longrightarrow> n \<le> round_half_even x"
proof -
  assume "of_int n \<le> x"
  then have "n \<le> \<lfloor>x\<rfloor>" by (simp add: le_floor_iff)
  then show ?thesis by (simp add: round_half_even_def Let_def)
qed

lemma round_half_even_le: "x \<le> of_int n \<Longrightarrow> round_half_even x \<le> n"
proof -
  assume le: "x \<le> of_int n"
  then have f: "\<lfloor>x\<rfloor> \<le> n" by (simp add: floor_le_iff)
  show ?thesis
  proof (cases "x - of_int \<lfloor>x\<rfloor> < 1 / 2")
    case True
    with f show ?thesis by (simp add: round_half_even_def Let_def)
  next
    case False
    then have "of_int \<lfloor>x\<rfloor> < x" by simp
    with le have "of_int \<lfloor>x\<rfloor> < (of_int n :: rat)" by simp
    then have "\<lfloor>x\<rfloor> < n" by simp
    then show ?thesis by (simp add: round_half_even_def Let_def)
  qed
qed

lemma powi2_pos: "0 < (2 :: rat) powi k"
  by simp

lemma powi2_mono: "k \<le> l \<Longrightarrow> (2 :: rat) powi k \<le> 2 powi l"
  by (simp add: power_int_increasing)

lemma powi2_less_cancel:
  assumes "(2 :: rat) powi k < 2 powi l"
  shows "k < l"
proof (rule ccontr)
  assume "\<not> k < l"
  then have "(2 :: rat) powi l \<le> 2 powi k" by (intro powi2_mono) simp
  with assms show False by simp
qed

lemma f32_exponent_bounds:
  assumes "x \<noteq> 0"
  shows "2 powi (f32_exponent x) \<le> \<bar>x\<bar> \<and> \<bar>x\<bar> < 2 powi (f32_exponent x + 1)"
proof -
  obtain p q where pq: "quotient_of \<bar>x\<bar> = (p, q)" by (cases "quotient_of \<bar>x\<bar>")
  have q: "0 < q" using pq by (rule quotient_of_denom_pos)
  have x: "\<bar>x\<bar> = of_int p / of_int q" using pq by (rule quotient_of_div)
  have "0 < \<bar>x\<bar>" using assms by simp
  with x q have p: "0 < p" by (simp add: zero_less_divide_iff)
  let ?e0 = "bitlen p - bitlen q"
  have bp: "1 \<le> bitlen p" and bq: "1 \<le> bitlen q"
    using p q by (auto simp: bitlen_alt_def)
  from bitlen_bounds [OF p] bitlen_bounds [OF q]
  have pb: "2 ^ nat (bitlen p - 1) \<le> p" "p < 2 ^ nat (bitlen p)"
    and qb: "2 ^ nat (bitlen q - 1) \<le> q" "q < 2 ^ nat (bitlen q)"
    by simp_all
  have P1: "(2 :: rat) powi (bitlen p - 1) \<le> of_int p"
  proof -
    have "(of_int (2 ^ nat (bitlen p - 1)) :: rat) \<le> of_int p" using pb(1) by (simp only: of_int_le_iff)
    then show ?thesis using bp by (simp add: power_int_def)
  qed
  have P2: "(of_int p :: rat) < 2 powi (bitlen p)"
  proof -
    have "(of_int p :: rat) < of_int (2 ^ nat (bitlen p))" using pb(2) by (simp only: of_int_less_iff)
    then show ?thesis using bp by (simp add: power_int_def)
  qed
  have Q1: "(2 :: rat) powi (bitlen q - 1) \<le> of_int q"
  proof -
    have "(of_int (2 ^ nat (bitlen q - 1)) :: rat) \<le> of_int q" using qb(1) by (simp only: of_int_le_iff)
    then show ?thesis using bq by (simp add: power_int_def)
  qed
  have Q2: "(of_int q :: rat) < 2 powi (bitlen q)"
  proof -
    have "(of_int q :: rat) < of_int (2 ^ nat (bitlen q))" using qb(2) by (simp only: of_int_less_iff)
    then show ?thesis using bq by (simp add: power_int_def)
  qed
  have qpos: "(0 :: rat) < of_int q" using q by simp
  have lower: "(2 :: rat) powi (?e0 - 1) \<le> \<bar>x\<bar>"
  proof -
    have "(2 :: rat) powi (?e0 - 1) * of_int q \<le> 2 powi (?e0 - 1) * 2 powi (bitlen q)"
      using Q2 by (intro mult_left_mono) simp_all
    also have "\<dots> = 2 powi (bitlen p - 1)"
      by (simp add: power_int_add [symmetric])
    also have "\<dots> \<le> of_int p" by (rule P1)
    finally show ?thesis using qpos by (simp add: x pos_le_divide_eq)
  qed
  have upper: "\<bar>x\<bar> < (2 :: rat) powi (?e0 + 1)"
  proof -
    have "(of_int p :: rat) < 2 powi (bitlen p)" by (rule P2)
    also have "\<dots> = 2 powi (?e0 + 1) * 2 powi (bitlen q - 1)"
      by (simp add: power_int_add [symmetric])
    also have "\<dots> \<le> 2 powi (?e0 + 1) * of_int q"
      using Q1 by (intro mult_left_mono) simp_all
    finally show ?thesis using qpos by (simp add: x pos_divide_less_eq)
  qed
  show ?thesis
  proof (cases "(2 :: rat) powi ?e0 \<le> \<bar>x\<bar>")
    case True
    then have "f32_exponent x = ?e0" by (simp add: f32_exponent_def pq)
    with True upper show ?thesis by simp
  next
    case False
    then have "f32_exponent x = ?e0 - 1" by (simp add: f32_exponent_def pq)
    with False lower show ?thesis by simp
  qed
qed

lemma powi2_le_cancel:
  assumes "(2 :: rat) powi k \<le> 2 powi l"
  shows "k \<le> l"
proof (rule ccontr)
  assume "\<not> k \<le> l"
  then have "(2 :: rat) powi l < 2 powi k" by (intro power_int_strict_increasing) simp_all
  with assms show False by simp
qed

lemma powi2_split: "q \<le> k \<Longrightarrow> (2 :: rat) powi k = of_int (2 ^ nat (k - q)) * 2 powi q"
proof -
  assume "q \<le> k"
  then have "(2 :: rat) powi (k - q) = of_int (2 ^ nat (k - q))"
    by (simp add: power_int_def)
  moreover have "(2 :: rat) powi k = 2 powi (k - q) * 2 powi q"
    by (simp add: power_int_add [symmetric])
  ultimately show ?thesis by simp
qed

lemma f32_round_abs_le:
  assumes "- 149 \<le> k" and "\<bar>x\<bar> \<le> 2 powi k"
  shows "\<bar>f32_round x\<bar> \<le> 2 powi k"
proof (cases "x = 0")
  case True
  then show ?thesis by (simp add: f32_round_def)
next
  case False
  define q where "q = max (f32_exponent x - 23) (- 149)"
  define u :: rat where "u = 2 powi q"
  define N :: int where "N = 2 ^ nat (k - q)"
  have u: "0 < u" by (simp add: u_def)
  from f32_exponent_bounds [OF False] assms(2)
  have "(2 :: rat) powi (f32_exponent x) \<le> 2 powi k" by simp
  then have "f32_exponent x \<le> k" by (rule powi2_le_cancel)
  with assms(1) have qk: "q \<le> k" by (simp add: q_def)
  have k: "(2 :: rat) powi k = of_int N * u"
    unfolding N_def u_def using qk by (rule powi2_split)
  have "x \<le> of_int N * u" "- (of_int N * u) \<le> x"
    using assms(2) by (simp_all add: k abs_le_iff)
  then have "x / u \<le> of_int N" "of_int (- N) \<le> x / u"
    using u by (simp_all add: pos_divide_le_eq pos_le_divide_eq)
  then have "round_half_even (x / u) \<le> N" "- N \<le> round_half_even (x / u)"
    by (auto intro: round_half_even_le round_half_even_ge)
  then have "\<bar>round_half_even (x / u)\<bar> \<le> N" by simp
  then have "\<bar>of_int (round_half_even (x / u)) :: rat\<bar> \<le> of_int N"
    by (simp only: of_int_abs [symmetric] of_int_le_iff)
  then have "\<bar>of_int (round_half_even (x / u)) * u\<bar> \<le> of_int N * u"
    using u by (simp add: abs_mult)
  moreover have "f32_round x = of_int (round_half_even (x / u)) * u"
    using False by (simp add: f32_round_def Let_def u_def q_def)
  ultimately show ?thesis by (simp add: k)
qed

lemma f32_round_ge:
  assumes "- 149 \<le> k" and "2 powi k \<le> x"
  shows "2 powi k \<le> f32_round x"
proof -
  have pos: "0 < x" using assms(2) powi2_pos [of k] by linarith
  then have nz: "x \<noteq> 0" by simp
  define e where "e = f32_exponent x"
  define q where "q = max (e - 23) (- 149)"
  define u :: rat where "u = 2 powi q"
  define N :: int where "N = 2 ^ nat (e - q)"
  have u: "0 < u" by (simp add: u_def)
  from f32_exponent_bounds [OF nz] pos
  have eb: "2 powi e \<le> x" "x < 2 powi (e + 1)" by (simp_all add: e_def)
  from assms(2) eb(2) have "(2 :: rat) powi k < 2 powi (e + 1)" by simp
  then have ke: "k \<le> e" using powi2_less_cancel by fastforce
  with assms(1) have qe: "q \<le> e" by (simp add: q_def)
  have e: "(2 :: rat) powi e = of_int N * u"
    unfolding N_def u_def using qe by (rule powi2_split)
  have "of_int N \<le> x / u" using eb(1) u by (simp add: e pos_le_divide_eq)
  then have "N \<le> round_half_even (x / u)" by (rule round_half_even_ge)
  then have "(of_int N :: rat) \<le> of_int (round_half_even (x / u))" by (simp only: of_int_le_iff)
  then have "of_int N * u \<le> of_int (round_half_even (x / u)) * u"
    using u by simp
  moreover have "f32_round x = of_int (round_half_even (x / u)) * u"
    using nz by (simp add: f32_round_def Let_def u_def q_def e_def)
  moreover have "(2 :: rat) powi k \<le> 2 powi e" using ke by (rule powi2_mono)
  ultimately show ?thesis by (simp add: e)
qed

lemma f32_round_nonneg:
  assumes "0 \<le> x"
  shows "0 \<le> f32_round x"
proof (cases "x = 0")
  case True
  then show ?thesis by (simp add: f32_round_def)
next
  case False
  define u :: rat where "u = 2 powi (max (f32_exponent x - 23) (- 149))"
  have u: "0 < u" by (simp add: u_def)
  have "of_int 0 \<le> x / u" using assms u by simp
  then have "0 \<le> round_half_even (x / u)" by (rule round_half_even_ge)
  then have "0 \<le> (of_int (round_half_even (x / u)) :: rat) * u" using u by simp
  then show ?thesis using False by (simp add: f32_round_def Let_def u_def)
qed

lemma f32_round_exact:
  assumes "\<bar>m\<bar> < 2 ^ 24" and "- 149 \<le> j"
  shows "f32_round (of_int m * 2 powi j) = of_int m * 2 powi j"
proof (cases "m = 0")
  case True
  then show ?thesis by (simp add: f32_round_def)
next
  case False
  define x :: rat where "x = of_int m * 2 powi j"
  define q where "q = max (f32_exponent x - 23) (- 149)"
  define u :: rat where "u = 2 powi q"
  have nz: "x \<noteq> 0" using False by (simp add: x_def)
  have u: "0 < u" by (simp add: u_def)
  have "(of_int \<bar>m\<bar> :: rat) < of_int (2 ^ 24)" using assms(1) by (simp only: of_int_less_iff)
  then have "\<bar>x\<bar> < 2 ^ 24 * 2 powi j"
    by (simp add: x_def abs_mult)
  also have "\<dots> = 2 powi (24 + j)" by (simp add: power_int_add)
  finally have "\<bar>x\<bar> < 2 powi (24 + j)" .
  with f32_exponent_bounds [OF nz] have "(2 :: rat) powi (f32_exponent x) < 2 powi (24 + j)"
    by simp
  then have "f32_exponent x < 24 + j" by (rule powi2_less_cancel)
  with assms(2) have qj: "q \<le> j" by (simp add: q_def)
  have "(2 :: rat) powi j = of_int (2 ^ nat (j - q)) * u"
    unfolding u_def using qj by (rule powi2_split)
  then have xu: "x / u = of_int (m * 2 ^ nat (j - q))"
    using u by (simp add: x_def)
  have "f32_round x = of_int (round_half_even (x / u)) * u"
    using nz by (simp add: f32_round_def Let_def u_def q_def)
  also have "\<dots> = (x / u) * u" by (simp only: xu round_half_even_of_int)
  also have "\<dots> = x" using u by simp
  finally show ?thesis by (simp add: x_def)
qed

lemma f32_round_ge_32767:
  assumes "32767 \<le> x"
  shows "32767 \<le> f32_round x"
proof (cases "32768 \<le> x")
  case True
  then have "2 powi 15 \<le> x" by simp
  then have "2 powi 15 \<le> f32_round x" by (intro f32_round_ge) simp_all
  then show ?thesis by simp
next
  case False
  have nz: "x \<noteq> 0" using assms by auto
  from f32_exponent_bounds [OF nz] assms False
  have a: "2 powi (f32_exponent x) < (2 :: rat) powi 15"
    and b: "(2 :: rat) powi 14 < 2 powi (f32_exponent x + 1)"
    by simp_all
  from powi2_less_cancel [OF a] powi2_less_cancel [OF b]
  have e: "f32_exponent x = 14" by simp
  have r: "f32_round x = of_int (round_half_even (x * 512)) / 512"
    using nz by (simp add: f32_round_def e Let_def power_int_minus_divide)
  have "of_int 16776704 \<le> x * 512" using assms by simp
  then have "16776704 \<le> round_half_even (x * 512)" by (rule round_half_even_ge)
  then have "(of_int 16776704 :: rat) \<le> of_int (round_half_even (x * 512))"
    by (simp only: of_int_le_iff)
  then show ?thesis by (simp add: r)
qed

subsection \<open>Samples\<close>

lemma sint16_bounds: "- 32768 \<le> sint (v :: 16 word) \<and> sint v \<le> 32767"
  using sint_ge [of v] sint_lt [of v] by simp

lemma normalized_exact:
  "f32_div (float32_of_int16 v) 32768 = of_int (sint v) / 32768"
proof -
  have "\<bar>sint v\<bar> < 2 ^ 24" using sint16_bounds [of v] by simp arith
  then have "f32_round (of_int (sint v) * 2 powi (- 15)) = of_int (sint v) * 2 powi (- 15)"
    by (intro f32_round_exact) simp_all
  then show ?thesis
    by (simp add: f32_div_def float32_of_int16_def power_int_minus_divide)
qed

lemma normalized_abs_le: "\<bar>f32_div (float32_of_int16 v) 32768\<bar> \<le> 1"
proof -
  have "\<bar>sint v\<bar> \<le> 32768" using sint16_bounds [of v] by arith
  then have "\<bar>of_int (sint v) :: rat\<bar> \<le> 32768"
    by (metis of_int_abs of_int_le_iff of_int_numeral)
  then show ?thesis by (simp add: normalized_exact)
qed

lemma f32_const_tenth_bounds: "0 \<le> f32_const_tenth \<and> f32_const_tenth \<le> 1 / 8"
proof -
  have "\<bar>f32_round (1 / 10)\<bar> \<le> 2 powi (- 3)"
    by (intro f32_round_abs_le) (simp_all add: power_int_minus_divide)
  moreover have "0 \<le> f32_round (1 / 10)" by (intro f32_round_nonneg) simp
  ultimately show ?thesis by (simp add: f32_const_tenth_def power_int_minus_divide)
qed

lemma f32_trunc_small: "\<bar>y\<bar> < 1 \<Longrightarrow> f32_trunc y = 0"
  by (auto simp: f32_trunc_def floor_eq_iff ceiling_eq_iff abs_less_iff)

lemma attenuated_small:
  assumes "\<bar>x\<bar> \<le> 1"
  shows "\<bar>f32_mul x f32_const_tenth\<bar> \<le> 1 / 8"
proof -
  have "\<bar>x * f32_const_tenth\<bar> = \<bar>x\<bar> * f32_const_tenth"
    using f32_const_tenth_bounds by (simp add: abs_mult)
  also have "\<dots> \<le> 1 * (1 / 8)"
    using assms f32_const_tenth_bounds by (intro mult_mono) simp_all
  finally have "\<bar>x * f32_const_tenth\<bar> \<le> 2 powi (- 3)"
    by (simp add: power_int_minus_divide)
  then have "\<bar>f32_round (x * f32_const_tenth)\<bar> \<le> 2 powi (- 3)"
    by (intro f32_round_abs_le) simp_all
  then show ?thesis by (simp add: f32_mul_def power_int_minus_divide)
qed

lemma attenuated_zero:
  "\<bar>x\<bar> \<le> 1 \<Longrightarrow> int16_of_float32 (f32_mul x f32_const_tenth) = 0"
  using attenuated_small [of x] by (simp add: int16_of_float32_def f32_trunc_small)

lemma samplesBytes_attenuate:
  "\<forall>s \<in> set samples. \<bar>s\<bar> \<le> 1 \<Longrightarrow>
   samplesBytes (attenuate samples) = replicate (2 * length samples) 0"
  by (induction samples)
     (simp_all add: samplesBytes_def attenuate_def attenuated_zero LittleEndian_PutUint16_def)

lemma frameSamples_abs_le:
  assumes "frameSamples frame = Some samples" and "rnnoiseFrameBytes \<le> length frame"
  shows "\<forall>s \<in> set samples. \<bar>s\<bar> \<le> 1"
  using assms frameSamples_Some [OF assms(2)] by (auto simp: normalized_abs_le)

lemma processFrame_not_kept:
  assumes "rnnoiseFrameBytes \<le> length frame"
    and "frameSamples frame = Some samples"
    and "FilterStream env e samples thr = ((d, False, err), e')"
  shows "processFrame env thr (Some e) frame = Some (replicate rnnoiseFrameBytes 0, Some e')"
proof -
  have "suppress env thr (Some e) samples = Some (attenuate samples, Some e')"
    using assms(3) by (simp add: suppress_def)
  moreover have "samplesBytes (attenuate samples) = replicate (2 * length samples) 0"
    using frameSamples_abs_le [OF assms(2,1)] by (rule samplesBytes_attenuate)
  moreover have "length samples = rnnoiseFrameSize"
    using assms(2) by (rule frameSamples_length)
  ultimately show ?thesis
    using assms(2) by (simp add: processFrame_def frame_consts)
qed

lemma int16_of_normalized:
  "int16_of_float32 (f32_div (float32_of_int16 v) 32768) = (if sint v = - 32768 then - 1 else 0)"
proof (cases "sint v = - 32768")
  case True
  have "\<lceil>- 1 :: rat\<rceil> = - 1" by (simp add: ceiling_eq_iff)
  with True show ?thesis
    by (simp add: normalized_exact int16_of_float32_def f32_trunc_def)
next
  case False
  with sint16_bounds [of v] have "\<bar>sint v\<bar> < 32768" by arith
  then have "\<bar>of_int (sint v) :: rat\<bar> < 32768"
    by (metis of_int_abs of_int_less_iff of_int_numeral)
  then have "\<bar>of_int (sint v) / 32768 :: rat\<bar> < 1" by simp
  then show ?thesis
    using False by (simp add: normalized_exact int16_of_float32_def f32_trunc_small)
qed

lemma PutUint16_minus_1: "LittleEndian_PutUint16 (- 1) = [255, 255]"
  by code_simp

lemma PutUint16_0: "LittleEndian_PutUint16 0 = [0, 0]"
  by (simp add: LittleEndian_PutUint16_def)

lemma PutUint16_of_normalized:
  "LittleEndian_PutUint16 (int16_of_float32 (f32_div (float32_of_int16 v) 32768))
     = (if sint v = - 32768 then [255, 255] else [0, 0])"
  by (simp add: int16_of_normalized PutUint16_minus_1 PutUint16_0)

lemma samplesBytes_normalized:
  assumes "rnnoiseFrameBytes \<le> length frame" and "frameSamples frame = Some samples"
  shows "samplesBytes samples =
           concat (map (\<lambda>i. if sint (int16At frame i) = - 32768 then [255, 255] else [0, 0])
                     [0..<rnnoiseFrameSize])"
proof -
  have "samples = map (\<lambda>i. f32_div (float32_of_int16 (int16At frame i)) 32768) [0..<rnnoiseFrameSize]"
    using frameSamples_Some [OF assms(1)] assms(2) by simp
  then show ?thesis
    by (simp add: samplesBytes_def comp_def PutUint16_of_normalized)
qed

lemma processFrame_failed_kept:
  assumes "rnnoiseFrameBytes \<le> length frame"
    and "frameSamples frame = Some samples"
    and "FilterStream env e samples thr = ((d, True, Some er), e')"
  shows "processFrame env thr (Some e) frame =
           Some (concat (map (\<lambda>i. if sint (int16At frame i) = - 32768 then [255, 255] else [0, 0])
                           [0..<rnnoiseFrameSize]), Some e')"
proof -
  have "suppress env thr (Some e) samples = Some (samples, Some e')"
    using assms(3) by (simp add: suppress_def)
  then show ?thesis
    using assms(2) samplesBytes_normalized [OF assms(1,2)] by (simp add: processFrame_def)
qed

lemma length_ex_frame: "length ex_frame = 960"
  by (simp add: ex_frame_def length_concat sum_list_replicate)

lemma ex_frame_not_silent: "ex_frame \<noteq> replicate 960 0"
proof
  assume "ex_frame = replicate 960 0"
  then have "set ex_frame = set (replicate 960 (0 :: byte))" by simp
  then show False by (simp add: ex_frame_def)
qed

lemma nth_concat_pairs:
  "i < n \<Longrightarrow> concat (replicate n [a, b]) ! (i * 2) = a \<and> concat (replicate n [a, b]) ! (i * 2 + 1) = b"
proof (induction n arbitrary: i)
  case 0
  then show ?case by simp
next
  case (Suc n)
  then show ?case by (cases i) simp_all
qed

lemma int16At_ex_frame: "i < 480 \<Longrightarrow> int16At ex_frame i = 1000"
proof -
  assume "i < 480"
  then have "ex_frame ! (i * 2) = 0xE8" "ex_frame ! (i * 2 + 1) = 0x03"
    using nth_concat_pairs [of i 480 "0xE8 :: byte" "0x03"] by (simp_all add: ex_frame_def)
  moreover have "(ucast (0xE8 :: byte) OR push_bit 8 (ucast (0x03 :: byte)) :: 16 word) = 1000"
    by code_simp
  ultimately show ?thesis by (simp add: int16At_def)
qed

lemma concat_map_zero: "concat (map (\<lambda>_. [0, 0 :: byte]) xs) = replicate (2 * length xs) 0"
  by (induction xs) simp_all

text \<open>
  Claim C3 expects a frame the denoiser reports as not to keep to come out at a tenth
  of its amplitude. The source multiplies the samples by 0.1 while they are still
  normalised to \<open>[-1, 1]\<close> and converts them to \<^verbatim>\<open>int16\<close> without scaling them back
  by 32768 (only the branch that keeps the frame does): every sample truncates to 0.
  A frame of samples 1000 comes out as 960 zero bytes, not as samples of 100.
\<close>

theorem noise_frame_silenced:
  "processFrame ex_env_noise (Threshold ex_config) (Some ()) ex_frame = Some (replicate 960 0, Some ())
   \<and> replicate 960 0 \<noteq> concat (replicate 480 [0x64, 0x00 :: byte])"
proof -
  have len: "rnnoiseFrameBytes \<le> length ex_frame" by (simp add: length_ex_frame frame_consts)
  obtain samples where s: "frameSamples ex_frame = Some samples"
    using frameSamples_Some [OF len] by simp
  have fs: "FilterStream ex_env_noise () samples (Threshold ex_config) = ((samples, False, None), ())"
    by (simp add: ex_env_noise_def)
  have "processFrame ex_env_noise (Threshold ex_config) (Some ()) ex_frame
          = Some (replicate rnnoiseFrameBytes 0, Some ())"
    using len s fs by (rule processFrame_not_kept)
  moreover have "replicate 960 0 \<noteq> concat (replicate 480 [0x64, 0x00 :: byte])"
  proof
    assume "replicate 960 0 = concat (replicate 480 [0x64, 0x00 :: byte])"
    then have "set (replicate 960 (0 :: byte)) = set (concat (replicate 480 [0x64, 0x00 :: byte]))"
      by simp
    then show False by simp
  qed
  ultimately show ?thesis by (simp add: frame_consts)
qed

text \<open>
  Claim C4 expects a frame on which \<^verbatim>\<open>FilterStream\<close> returns an error to come out
  byte-identical. Whether the failed call reports the frame as kept (the samples are
  left alone) or not (they are multiplied by 0.1), they are still normalised when they
  are converted to \<^verbatim>\<open>int16\<close>: a frame of samples 1000 comes out as 960 zero bytes.
\<close>

theorem failed_frame_silenced:
  "processFrame ex_env_failing (Threshold ex_config) (Some ()) ex_frame = Some (replicate 960 0, Some ())
   \<and> processFrame ex_env_failing_keep (Threshold ex_config) (Some ()) ex_frame
       = Some (replicate 960 0, Some ())
   \<and> ex_frame \<noteq> replicate 960 0"
proof -
  have len: "rnnoiseFrameBytes \<le> length ex_frame" by (simp add: length_ex_frame frame_consts)
  obtain samples where s: "frameSamples ex_frame = Some samples"
    using frameSamples_Some [OF len] by simp
  have fs1: "FilterStream ex_env_failing () samples (Threshold ex_config)
               = (([], False, Some ''failed''), ())"
    by (simp add: ex_env_failing_def)
  have fs2: "FilterStream ex_env_failing_keep () samples (Threshold ex_config)
               = ((samples, True, Some ''failed''), ())"
    by (simp add: ex_env_failing_keep_def)
  have a: "processFrame ex_env_failing (Threshold ex_config) (Some ()) ex_frame
             = Some (replicate rnnoiseFrameBytes 0, Some ())"
    using len s fs1 by (rule processFrame_not_kept)
  have m: "map (\<lambda>i. if sint (int16At ex_frame i) = - 32768 then [255, 255] else [0, 0 :: byte])
            [0..<rnnoiseFrameSize]
          = map (\<lambda>_. [0, 0]) [0..<rnnoiseFrameSize]"
    by (rule map_cong) (simp_all add: int16At_ex_frame frame_consts)
  have b: "processFrame ex_env_failing_keep (Threshold ex_config) (Some ()) ex_frame
             = Some (replicate 960 0, Some ())"
    using processFrame_failed_kept [OF len s fs2, unfolded m concat_map_zero]
    by (simp add: frame_consts)
  show ?thesis using a b ex_frame_not_silent by (simp add: frame_consts)
qed

lemma clampSample_range: "- 32768 \<le> clampSample s \<and> clampSample s \<le> 32767"
  by (simp add: clampSample_def Let_def)

lemma f32_trunc_mono: "x \<le> y \<Longrightarrow> f32_trunc x \<le> f32_trunc y"
proof -
  assume "x \<le> y"
  have "\<lfloor>x\<rfloor> \<le> \<lceil>x\<rceil>" by (rule floor_le_ceiling)
  show ?thesis
  proof (cases "0 \<le> x")
    case True
    with \<open>x \<le> y\<close> show ?thesis by (simp add: f32_trunc_def floor_mono)
  next
    case False
    show ?thesis
    proof (cases "0 \<le> y")
      case True
      have "\<lceil>x\<rceil> \<le> 0" using False by (simp add: ceiling_le_iff)
      moreover have "0 \<le> \<lfloor>y\<rfloor>" using True by simp
      ultimately have "\<lceil>x\<rceil> \<le> \<lfloor>y\<rfloor>" by (rule order_trans)
      then show ?thesis using False True by (simp add: f32_trunc_def)
    next
      case False
      with \<open>\<not> 0 \<le> x\<close> \<open>x \<le> y\<close> show ?thesis by (simp add: f32_trunc_def ceiling_mono)
    qed
  qed
qed

lemma f32_trunc_of_int: "f32_trunc (of_int n) = n"
  by (simp add: f32_trunc_def)

lemma int16_of_float32_sint:
  assumes "- 32768 \<le> x" and "x \<le> 32767"
  shows "sint (int16_of_float32 x) = f32_trunc x"
proof -
  have "f32_trunc (of_int (- 32768)) \<le> f32_trunc x" "f32_trunc x \<le> f32_trunc (of_int 32767)"
    using assms by (auto intro!: f32_trunc_mono)
  then have "- 32768 \<le> f32_trunc x" "f32_trunc x \<le> 32767"
    by (simp_all only: f32_trunc_of_int)
  then have "signed_take_bit 15 (f32_trunc x) = f32_trunc x"
    by (intro signed_take_bit_int_eq_self) simp_all
  then show ?thesis by (simp add: int16_of_float32_def signed_of_int)
qed

lemma clampSample_saturates:
  "sint (int16_of_float32 (clampSample s))
     = max (- 32768) (min 32767 (f32_trunc (f32_mul s 32768)))"
proof -
  let ?c = "f32_mul s 32768"
  have eq: "sint (int16_of_float32 (clampSample s)) = f32_trunc (clampSample s)"
    using clampSample_range [of s] by (intro int16_of_float32_sint) simp_all
  consider "32767 < ?c" | "?c < - 32768" | "- 32768 \<le> ?c" "?c \<le> 32767" by linarith
  then show ?thesis
  proof cases
    case 1
    then have "f32_trunc (of_int 32767) \<le> f32_trunc ?c" by (intro f32_trunc_mono) simp
    then have "32767 \<le> f32_trunc ?c" by (simp only: f32_trunc_of_int)
    moreover have "clampSample s = 32767" using 1 by (simp add: clampSample_def Let_def)
    then have "f32_trunc (clampSample s) = 32767" by (simp add: f32_trunc_def)
    ultimately show ?thesis unfolding eq by simp
  next
    case 2
    then have "f32_trunc ?c \<le> f32_trunc (of_int (- 32768))" by (intro f32_trunc_mono) simp
    then have "f32_trunc ?c \<le> - 32768" by (simp only: f32_trunc_of_int)
    moreover have "clampSample s = - 32768" using 2 by (simp add: clampSample_def Let_def)
    then have "f32_trunc (clampSample s) = - 32768" by (simp add: f32_trunc_def)
    ultimately show ?thesis unfolding eq by simp
  next
    case 3
    then have "f32_trunc (of_int (- 32768)) \<le> f32_trunc ?c" "f32_trunc ?c \<le> f32_trunc (of_int 32767)"
      by (auto intro!: f32_trunc_mono)
    then have "- 32768 \<le> f32_trunc ?c" "f32_trunc ?c \<le> 32767"
      by (simp_all only: f32_trunc_of_int)
    moreover have "clampSample s = ?c" using 3 by (simp add: clampSample_def Let_def)
    ultimately show ?thesis unfolding eq by simp
  qed
qed

lemma clampSample_full_scale:
  assumes "32767 / 32768 \<le> s"
  shows "int16_of_float32 (clampSample s) = 32767"
proof -
  have "32767 \<le> s * 32768" using assms by simp
  then have "32767 \<le> f32_mul s 32768" unfolding f32_mul_def by (rule f32_round_ge_32767)
  then have "clampSample s = 32767" by (simp add: clampSample_def Let_def)
  then show ?thesis by (simp add: int16_of_float32_def f32_trunc_def)
qed

lemma clampSample_nonneg:
  assumes "0 \<le> s"
  shows "0 \<le> sint (int16_of_float32 (clampSample s))"
proof -
  have "0 \<le> f32_mul s 32768" unfolding f32_mul_def using assms by (intro f32_round_nonneg) simp
  then have "0 \<le> clampSample s" by (simp add: clampSample_def Let_def)
  then have "f32_trunc (of_int 0) \<le> f32_trunc (clampSample s)" by (intro f32_trunc_mono) simp
  then have "0 \<le> f32_trunc (clampSample s)" by (simp only: f32_trunc_of_int)
  moreover have "sint (int16_of_float32 (clampSample s)) = f32_trunc (clampSample s)"
    using clampSample_range [of s] by (intro int16_of_float32_sint) simp_all
  ultimately show ?thesis by simp
qed

lemma processFrame_kept:
  assumes "frameSamples frame = Some samples"
    and "FilterStream env e samples thr = ((d, True, None), e')"
    and "length d = rnnoiseFrameSize"
  shows "processFrame env thr (Some e) frame =
           Some (concat (map (\<lambda>s. LittleEndian_PutUint16 (int16_of_float32 (clampSample s))) d),
                 Some e')"
proof -
  have "length samples = rnnoiseFrameSize" using assms(1) by (rule frameSamples_length)
  then have "storeDenoised d samples = Some (map clampSample d)"
    using assms(3) by (simp add: storeDenoised_eq)
  then have "suppress env thr (Some e) samples = Some (map clampSample d, Some e')"
    using assms(2) by (simp add: suppress_def)
  then show ?thesis
    using assms(1) by (simp add: processFrame_def samplesBytes_def comp_def)
qed

lemma suppress_in_range:
  assumes "frameSamples frame = Some samples" and "rnnoiseFrameBytes \<le> length frame"
    and "suppress env thr dn samples = Some (samples', dn')"
  shows "\<forall>s \<in> set samples'. - 32768 \<le> s \<and> s \<le> 32767"
proof -
  have small: "\<forall>s \<in> set samples. \<bar>s\<bar> \<le> 1"
    using assms(1,2) by (rule frameSamples_abs_le)
  then have untouched: "\<forall>s \<in> set samples. - 32768 \<le> s \<and> s \<le> 32767"
    by (auto simp: abs_le_iff)
  have att: "\<forall>s \<in> set (attenuate samples). - 32768 \<le> s \<and> s \<le> 32767"
  proof
    fix s assume "s \<in> set (attenuate samples)"
    then obtain x where "x \<in> set samples" and s: "s = f32_mul x f32_const_tenth"
      by (auto simp: attenuate_def)
    with small attenuated_small [of x] have "\<bar>s\<bar> \<le> 1 / 8" by simp
    then show "- 32768 \<le> s \<and> s \<le> 32767" by linarith
  qed
  have stored: "\<forall>s \<in> set st. - 32768 \<le> s \<and> s \<le> 32767"
    if "storeDenoised d samples = Some st" for d st
  proof -
    from that have "length d \<le> length samples"
      by (cases "length d \<le> length samples") (simp_all add: storeDenoised_None)
    with that have "st = map clampSample d @ drop (length d) samples"
      by (simp add: storeDenoised_eq)
    then show ?thesis
      using untouched clampSample_range by (auto dest: in_set_dropD)
  qed
  show ?thesis
    using assms(3) untouched att stored
    by (auto simp: suppress_def split: option.splits prod.splits if_splits)
qed

text \<open>
  Claim C9. A sample of the denoised frame is multiplied by 32768, clamped and
  converted (lines 224-230 and 244): the 16-bit result is the truncated product
  saturated to \<open>[-32768, 32767]\<close>, never a wrapped value; a sample at positive full
  scale (32767/32768 and above) gives 32767, and no sample that is not negative gives
  a negative result.
\<close>

theorem requantize_clamps:
  "sint (int16_of_float32 (clampSample sample))
     = max (- 32768) (min 32767 (f32_trunc (f32_mul sample 32768)))
   \<and> (32767 / 32768 \<le> sample \<longrightarrow> int16_of_float32 (clampSample sample) = 32767)
   \<and> (0 \<le> sample \<longrightarrow> 0 \<le> sint (int16_of_float32 (clampSample sample)))"
  using clampSample_saturates [of sample] clampSample_full_scale [of sample]
    clampSample_nonneg [of sample]
  by blast

theorem requantize_clamps_witness:
  "32767 / 32768 \<le> (1 :: rat) \<and> int16_of_float32 (clampSample 1) = 32767
   \<and> sint (int16_of_float32 (clampSample 1)) = 32767"
proof -
  have h: "32767 / 32768 \<le> (1 :: rat)" by simp
  from requantize_clamps [of 1] h
  have "int16_of_float32 (clampSample 1) = 32767" by blast
  with h show ?thesis by simp
qed

subsection \<open>No panic\<close>

text \<open>
  The only panic of \<^verbatim>\<open>processAudioPayload\<close> is the assignment beyond \<^verbatim>\<open>samples\<close>: with
  a denoiser that never returns more samples than it was given, it returns.
\<close>

lemma processFrame_returns:
  assumes "\<forall>e samples thr. length (fst (fst (FilterStream env e samples thr))) \<le> length samples"
    and "rnnoiseFrameBytes \<le> length frame"
  shows "\<exists>pf dn'. processFrame env thr dn frame = Some (pf, dn')"
proof -
  obtain samples where s: "frameSamples frame = Some samples"
    using frameSamples_Some [OF assms(2)] by simp
  have "\<exists>samples' dn'. suppress env thr dn samples = Some (samples', dn')"
  proof (cases dn)
    case None
    then show ?thesis by (simp add: suppress_def)
  next
    case (Some e)
    obtain d keep err e' where fs: "FilterStream env e samples thr = ((d, keep, err), e')"
      by (cases "FilterStream env e samples thr") auto
    with assms(1) have "length d \<le> length samples" by (metis fst_conv)
    then show ?thesis
      using Some fs by (simp add: suppress_def storeDenoised_eq)
  qed
  then show ?thesis using s by (auto simp: processFrame_def)
qed

lemma frameLoop_returns:
  assumes "\<forall>e samples thr. length (fst (fst (FilterStream env e samples thr))) \<le> length samples"
  shows "\<exists>out r'. frameLoop env r pd = Some (out, r')"
  using assms
proof (induction env r pd rule: frameLoop.induct)
  case (1 env r pd)
  show ?case
  proof (cases "rnnoiseFrameBytes \<le> length (buffer r)")
    case False
    then show ?thesis by (simp add: frameLoop.simps [of env r pd])
  next
    case True
    then have "rnnoiseFrameBytes \<le> length (take rnnoiseFrameBytes (buffer r))" by simp
    from processFrame_returns [OF "1.prems" this]
    obtain pf dn' where pf: "processFrame env (Threshold (config r)) (denoiser r)
                               (take rnnoiseFrameBytes (buffer r)) = Some (pf, dn')"
      by blast
    from "1.IH" [OF True pf refl "1.prems"] True pf
    show ?thesis by (simp add: frameLoop.simps [of env r pd])
  qed
qed

lemma processAudioPayload_returns:
  assumes "\<forall>e samples thr. length (fst (fst (FilterStream env e samples thr))) \<le> length samples"
  shows "\<exists>out r'. processAudioPayload env r payload = Some (out, r')"
proof -
  from frameLoop_returns [OF assms]
  obtain pd r1 where "frameLoop env (r\<lparr>buffer := buffer r @ payload\<rparr>) [] = Some (pd, r1)"
    by blast
  then show ?thesis by (simp add: processAudioPayload_def)
qed

end
